theory Spec2Isabelle
  imports Main
begin

section \<open>JavaScript values and built-ins used by the two modules\<close>

text \<open>
  Strings are character lists. Indices are \<open>int\<close>, because \<open>indexOf\<close> answers \<open>-1\<close>
  and \<open>slice\<close>/\<open>splice\<close> give negative indices a meaning of their own.
\<close>

datatype js_error = TypeError | SyntaxError | Error string

text \<open>\<open>String.prototype.indexOf(sub)\<close>: the first position at which \<open>sub\<close> occurs, else \<open>-1\<close>.\<close>

fun js_indexOf_from :: "string \<Rightarrow> string \<Rightarrow> nat \<Rightarrow> int" where
  "js_indexOf_from [] sub i = (if sub = [] then int i else - 1)"
| "js_indexOf_from (c # t) sub i =
     (if take (length sub) (c # t) = sub then int i else js_indexOf_from t sub (Suc i))"

definition js_indexOf :: "string \<Rightarrow> string \<Rightarrow> int" where
  "js_indexOf s sub = js_indexOf_from s sub 0"

text \<open>The relative-index rule shared by \<open>slice\<close> and \<open>splice\<close>: a negative index counts
  from the end, and everything is clamped into \<open>0..len\<close>.\<close>

definition js_rel_index :: "nat \<Rightarrow> int \<Rightarrow> nat" where
  "js_rel_index len i = (if i < 0 then nat (max (int len + i) 0) else min (nat i) len)"

text \<open>\<open>s.slice(start, end)\<close>; \<open>None\<close> is an omitted \<open>end\<close>. An empty range (\<open>to \<le> from\<close>)
  gives the empty string, which the truncating subtraction on \<open>nat\<close> provides.\<close>

definition js_slice :: "'a list \<Rightarrow> int \<Rightarrow> int option \<Rightarrow> 'a list" where
  "js_slice s start end =
     (let len = length s;
          from = js_rel_index len start;
          to = (case end of None \<Rightarrow> len | Some e \<Rightarrow> js_rel_index len e)
      in take (to - from) (drop from s))"

text \<open>\<open>xs.splice(start, deleteCount)\<close>, as the list that is left in \<open>xs\<close>.\<close>

definition js_splice :: "'a list \<Rightarrow> int \<Rightarrow> int \<Rightarrow> 'a list" where
  "js_splice xs start deleteCount =
     (let len = length xs;
          from = js_rel_index len start;
          n = min (nat (max deleteCount 0)) (len - from)
      in take from xs @ drop (from + n) xs)"

text \<open>\<open>Array.prototype.indexOf\<close> with the strict equality test passed in.\<close>

fun js_array_indexOf_from :: "('a \<Rightarrow> bool) \<Rightarrow> 'a list \<Rightarrow> nat \<Rightarrow> int" where
  "js_array_indexOf_from eq [] i = - 1"
| "js_array_indexOf_from eq (x # xs) i =
     (if eq x then int i else js_array_indexOf_from eq xs (Suc i))"

definition js_array_indexOf :: "('a \<Rightarrow> bool) \<Rightarrow> 'a list \<Rightarrow> int" where
  "js_array_indexOf eq xs = js_array_indexOf_from eq xs 0"

text \<open>Truthiness of a string that may be \<open>undefined\<close>.\<close>

definition truthy_str :: "string option \<Rightarrow> bool" where
  "truthy_str v = (case v of None \<Rightarrow> False | Some s \<Rightarrow> s \<noteq> [])"

text \<open>\<open>startsWith\<close> of \<open>file_list.js\<close>: \<open>string.lastIndexOf(substring, 0) === 0\<close>. Searching
  backwards from position 0 can only find \<open>substring\<close> at position 0.\<close>

definition js_lastIndexOf_0 :: "string \<Rightarrow> string \<Rightarrow> int" where
  "js_lastIndexOf_0 s sub = (if take (length sub) s = sub then 0 else - 1)"

definition startsWith :: "string \<Rightarrow> string \<Rightarrow> bool" where
  "startsWith s sub = (js_lastIndexOf_0 s sub = 0)"

section \<open>Source nodes\<close>

text \<open>
  The source-tracking tree of the \<open>source-map\<close> package, reduced to what \<open>updateMap\<close>
  touches: the text chunks in output order, the table of attached source contents, the
  \<open>source\<close> property and the \<open>isIdentity\<close> tag (\<open>False\<close> until \<open>updateMap\<close> assigns it).
\<close>

record source_node =
  chunks :: "string list"
  sourceContents :: "string \<rightharpoonup> string"
  nsource :: "string option"
  isIdentity :: bool

definition prepend :: "string \<Rightarrow> source_node \<Rightarrow> source_node" where
  "prepend s n = n\<lparr>chunks := s # chunks n\<rparr>"

definition add :: "string \<Rightarrow> source_node \<Rightarrow> source_node" where
  "add s n = n\<lparr>chunks := chunks n @ [s]\<rparr>"

definition setSourceContent :: "string \<Rightarrow> string \<Rightarrow> source_node \<Rightarrow> source_node" where
  "setSourceContent p c n = n\<lparr>sourceContents := (sourceContents n)(p \<mapsto> c)\<rparr>"

text \<open>The text the node emits (\<open>toString\<close>).\<close>

definition render :: "source_node \<Rightarrow> string" where
  "render n = concat (chunks n)"

text \<open>A source map after parsing: the listed sources (the property may be missing) and
  the contents embedded for them, position by position.\<close>

record mapping =
  sources :: "string list option"
  sourcesContent :: "string option list"

text \<open>Modelled from the spec: \<open>identityNode\<close> of \<open>helpers\<close> is not among the sources.
  The spec: "build an identity source-tracking node (one-to-one line mapping) directly
  from the wrapped text"; its rendered text is that text.\<close>

definition identityNode :: "string \<Rightarrow> string \<Rightarrow> source_node" where
  "identityNode content p =
     \<lparr>chunks = [content], sourceContents = Map.empty, nsource = None, isIdentity = False\<rparr>"

fun embedded_contents :: "string list \<Rightarrow> string option list \<Rightarrow> (string \<rightharpoonup> string)" where
  "embedded_contents (s # ss) (Some c # cs) = (embedded_contents ss cs)(s \<mapsto> c)"
| "embedded_contents (s # ss) (None # cs) = embedded_contents ss cs"
| "embedded_contents _ _ = Map.empty"

text \<open>Modelled from the spec: \<open>SourceNode.fromStringWithSourceMap\<close> belongs to the
  \<open>source-map\<close> package. The spec: "build a source-tracking tree from the compiled text
  and that map". The tree renders the given text and carries the contents the map embeds.\<close>

definition fromStringWithSourceMap :: "string \<Rightarrow> mapping \<Rightarrow> source_node" where
  "fromStringWithSourceMap content m =
     \<lparr>chunks = [content],
      sourceContents = embedded_contents (case sources m of None \<Rightarrow> [] | Some ss \<Rightarrow> ss)
                                         (sourcesContent m),
      nsource = None, isIdentity = False\<rparr>"

text \<open>Modelled from the spec: \<open>replaceBackSlashes\<close> of \<open>helpers\<close> is not among the
  sources. The spec: "re-root any Windows-style path separators to the canonical form".\<close>

definition replaceBackSlashes :: "string \<Rightarrow> string" where
  "replaceBackSlashes s = map (\<lambda>c. if c = CHR 0x5C then CHR ''/'' else c) s"

section \<open>\<open>source_file.js\<close>: composing the output node\<close>

text \<open>What the module wrapper hands back: a plain string, an object with optional
  \<open>prefix\<close>, \<open>suffix\<close> and \<open>data\<close>, or a value on which the property reads of
  \<open>updateMap\<close> throw (\<open>null\<close>, \<open>undefined\<close>, a number).\<close>

datatype wrapped =
    WString string
  | WObject (wprefix: "string option") (wsuffix: "string option") (wdata: "string option")
  | WOther

text \<open>The source map of a pipeline result: JSON text or an object.\<close>

datatype source_map = MapString string | MapObject mapping

text \<open>What \<open>updateMap\<close> takes from its surroundings: the platform flag, \<open>JSON.parse\<close>
  (\<open>None\<close> when it throws) and the file contents \<open>readFile\<close> resolves with (\<open>None\<close> when
  it rejects).\<close>

record platform =
  isWindows :: bool
  json_parse :: "string \<Rightarrow> mapping option"
  readFile :: "string \<Rightarrow> string option"

text \<open>Lines 31 to 40 of \<open>updateMap\<close>: prefix, suffix and wrapper content.\<close>

definition wrapper_parts ::
  "wrapped \<Rightarrow> string \<Rightarrow> js_error + (string option \<times> string option \<times> string)" where
  "wrapper_parts wr compiled =
     (case wr of
        WObject p s d \<Rightarrow> Inr (p, s, if truthy_str d then the d else compiled)
      | WString w \<Rightarrow>
          (let sourcePos = js_indexOf w compiled;
               wrapperContent = (if sourcePos > 0 then compiled else w);
               prefix = js_slice w 0 (Some sourcePos);
               suffix = js_slice w (sourcePos + int (length compiled)) None
           in Inr (Some prefix, Some suffix, wrapperContent))
      | WOther \<Rightarrow> Inl TypeError)"

text \<open>The pattern \<open>sMapRe\<close>, \<open>/^\)\]\}'/\<close>, replaced by the empty string.\<close>

definition strip_sMapRe :: "string \<Rightarrow> string" where
  "strip_sMapRe s =
     (if take 4 s = [CHR '')'', CHR '']'', CHR ''}'', CHR 0x27] then drop 4 s else s)"

definition truthy_map :: "source_map option \<Rightarrow> bool" where
  "truthy_map sm = (case sm of None \<Rightarrow> False | Some (MapString s) \<Rightarrow> s \<noteq> [] | Some (MapObject m) \<Rightarrow> True)"

text \<open>Lines 42 to 52: the parsed mapping (with the Windows rewrite of its sources) and
  the node built from it. The object form is rewritten in place, so what is later read
  as \<open>sourceMap.sources\<close> is the rewritten list; the string form is parsed into a fresh
  object and the string itself has no \<open>sources\<close>.\<close>

definition windows_sources :: "platform \<Rightarrow> mapping \<Rightarrow> mapping" where
  "windows_sources pf m =
     (case sources m of
        Some ss \<Rightarrow> if isWindows pf then m\<lparr>sources := Some (map replaceBackSlashes ss)\<rparr> else m
      | None \<Rightarrow> m)"

definition parsed_mapping :: "platform \<Rightarrow> source_map \<Rightarrow> js_error + mapping" where
  "parsed_mapping pf sm =
     (case sm of
        MapString s \<Rightarrow>
          (case json_parse pf (strip_sMapRe s) of
             None \<Rightarrow> Inl SyntaxError
           | Some m \<Rightarrow> Inr (windows_sources pf m))
      | MapObject m \<Rightarrow> Inr (windows_sources pf m))"

text \<open>Line 65: \<open>sourceMap && sourceMap.sources || []\<close>, read from the argument.\<close>

definition fetch_list :: "platform \<Rightarrow> source_map option \<Rightarrow> string list" where
  "fetch_list pf sm =
     (case sm of
        Some (MapObject m) \<Rightarrow> (case sources (windows_sources pf m) of Some ss \<Rightarrow> ss | None \<Rightarrow> [])
      | _ \<Rightarrow> [])"

text \<open>\<open>Promise.all(sources.map(addSource))\<close>: every content is attached, or the whole
  promise rejects (here with the first failing read in list order).\<close>

fun addSources :: "(string \<Rightarrow> string option) \<Rightarrow> string list \<Rightarrow> source_node \<Rightarrow> js_error + source_node" where
  "addSources rd [] n = Inr n"
| "addSources rd (p # ps) n =
     (case rd p of
        None \<Rightarrow> Inl (Error p)
      | Some content \<Rightarrow> addSources rd ps (setSourceContent p content n))"

text \<open>Lines 25 to 58 of \<open>updateMap\<close>, the part that runs before any file is read. \<open>Inl\<close> is
  an error thrown there, out of \<open>updateMap\<close> itself: the \<open>TypeError\<close> of a property read on
  what the wrapper returned, or the \<open>SyntaxError\<close> of \<open>JSON.parse\<close>.\<close>

definition updateMap_node ::
  "platform \<Rightarrow> string \<Rightarrow> string \<Rightarrow> wrapped \<Rightarrow> source_map option \<Rightarrow> js_error + source_node" where
  "updateMap_node pf p compiled wr sourceMap =
     (case wrapper_parts wr compiled of
        Inl e \<Rightarrow> Inl e
      | Inr (prefix, suffix, wrapperContent) \<Rightarrow>
          (case (if truthy_map sourceMap
                 then (case parsed_mapping pf (the sourceMap) of
                         Inl e \<Rightarrow> Inl e
                       | Inr m \<Rightarrow> Inr (fromStringWithSourceMap wrapperContent m))
                 else Inr (identityNode wrapperContent p)) of
             Inl e \<Rightarrow> Inl e
           | Inr node0 \<Rightarrow>
               (let node1 = node0\<lparr>isIdentity := (sourceMap = None)\<rparr>;
                    node2 = (if truthy_str prefix then prepend (the prefix) node1 else node1);
                    node3 = (if truthy_str suffix then add (the suffix) node2 else node2);
                    node4 = node3\<lparr>nsource := Some p\<rparr>;
                    node5 = setSourceContent p wrapperContent node4
                in Inr node5)))"

text \<open>\<open>updateMap\<close>: \<open>Inr\<close> is the node its promise resolves with; \<open>Inl\<close> is the error thrown
  by the first part or the reason its promise rejects with when a read fails.\<close>

definition updateMap ::
  "platform \<Rightarrow> string \<Rightarrow> string \<Rightarrow> wrapped \<Rightarrow> source_map option \<Rightarrow> js_error + source_node" where
  "updateMap pf p compiled wr sourceMap =
     (case updateMap_node pf p compiled wr sourceMap of
        Inl e \<Rightarrow> Inl e
      | Inr node5 \<Rightarrow> addSources (readFile pf) (fetch_list pf sourceMap) node5)"

section \<open>\<open>source_file.js\<close>: the record of one source file\<close>

text \<open>
  A \<open>SourceFile\<close> object. \<open>data\<close> and \<open>dependencies\<close> may hold \<open>null\<close>/\<open>undefined\<close>
  (\<open>None\<close>); \<open>ftype\<close> is the \<open>type\<close> property (\<open>None\<close> when it is falsy). \<open>frozen\<close> records
  \<open>Object.freeze\<close>: both modules run in strict mode, where an assignment to a property of a
  frozen object throws a \<open>TypeError\<close>. The three \<open>c_\<close> fields are the values captured by the
  closures \<open>makeCompiler\<close> and \<open>makeWrapper\<close> build in the constructor.
\<close>

record source_file =
  path :: string
  ftype :: "string option"
  source :: string
  data :: "string option"
  node :: "source_node option"
  dependencies :: "string list option"
  compilationTime :: "nat option"
  error :: "js_error option"
  isHelper :: bool
  removed :: bool
  disposed :: bool
  frozen :: bool
  c_path :: string
  c_isWrapped :: bool
  c_isntModule :: bool

text \<open>A compiler as the constructor sees it: its \<open>type\<close> property, if it has one. The list
  of compilers is \<open>[]\<close> also where the source passes \<open>undefined\<close>.\<close>

type_synonym compiler = "string option"

text \<open>The constructor; \<open>npmJSON\<close> is the answer of \<open>isNpmJSON(path)\<close>.\<close>

definition SourceFile :: "string \<Rightarrow> compiler list \<Rightarrow> bool \<Rightarrow> bool \<Rightarrow> bool \<Rightarrow> source_file" where
  "SourceFile p compilers isHelper' isVendor npmJSON =
     (let first = (case compilers of [] \<Rightarrow> None | c # _ \<Rightarrow> Some c);
          type = (case first of
                    Some (Some t) \<Rightarrow> (if t \<noteq> [] then Some t
                                      else if npmJSON then Some ''javascript'' else None)
                  | _ \<Rightarrow> (if npmJSON then Some ''javascript'' else None));
          isntModule = (isHelper' \<or> isVendor);
          isWrapped = (type = Some ''javascript'' \<or> type = Some ''template'')
      in \<lparr>path = p, ftype = type, source = [], data = Some [], node = None,
          dependencies = Some [], compilationTime = None, error = None,
          isHelper = isHelper', removed = False, disposed = False, frozen = False,
          c_path = p, c_isWrapped = isWrapped, c_isntModule = isntModule\<rparr>)"

text \<open>\<open>dispose\<close>: the first assignment already throws on a frozen record.\<close>

definition dispose :: "source_file \<Rightarrow> js_error + source_file" where
  "dispose file =
     (if frozen file then Inl TypeError
      else Inr (file\<lparr>path := [], data := Some [], dependencies := Some [], disposed := True,
                     node := None, error := None, frozen := True\<rparr>))"

text \<open>What the pipeline resolves with.\<close>

record pipeline_result =
  r_source :: string
  r_compiled :: string
  r_dependencies :: "string list option"
  r_sourceMap :: "source_map option"

text \<open>\<open>makeWrapper\<close>: the wrapper is applied to wrapped types only; otherwise the compiled
  text is handed back as it is.\<close>

definition makeWrapper ::
  "(string \<Rightarrow> string \<Rightarrow> bool \<Rightarrow> wrapped) \<Rightarrow> string \<Rightarrow> bool \<Rightarrow> bool \<Rightarrow> string \<Rightarrow> wrapped" where
  "makeWrapper wrapper p isWrapped isntModule compiled =
     (if isWrapped then wrapper p compiled isntModule else WString compiled)"

text \<open>
  \<open>updateCache\<close>. Its arguments \<open>error\<close> and \<open>result\<close> are \<open>None\<close> when they are \<open>null\<close> or
  \<open>undefined\<close>, which is what the tests \<open>error != null\<close> and \<open>result == null\<close> ask. The
  result is the updated record, how the call ended (it returned the record, it fell off
  its end and returned \<open>undefined\<close>, or \<open>updateMap\<close> threw after the assignments of lines
  83 to 87), and, where \<open>updateMap\<close> returned its promise, the outcome of that promise,
  whose \<open>then\<close> assigns \<open>cache.node\<close> later. \<open>Inl\<close> of the whole result is the \<open>TypeError\<close>
  of the first assignment to a frozen record, which leaves it as it was. \<open>now\<close> is
  \<open>Date.now()\<close>.
\<close>

datatype returned = ReturnsCache | ReturnsUndefined | Threw js_error

definition updateCache ::
  "platform \<Rightarrow> nat \<Rightarrow> string \<Rightarrow> source_file \<Rightarrow> js_error option \<Rightarrow> pipeline_result option \<Rightarrow>
     (string \<Rightarrow> wrapped) \<Rightarrow> js_error + (source_file \<times> returned \<times> (js_error + source_node) option)" where
  "updateCache pf now p cache err result wrap =
     (if frozen cache then Inl TypeError
      else (case err of
          Some e \<Rightarrow> Inr (cache\<lparr>error := Some e\<rparr>, ReturnsCache, None)
        | None \<Rightarrow>
            (case result of
               None \<Rightarrow>
                 Inr (cache\<lparr>error := None, data := None, compilationTime := Some now\<rparr>,
                      ReturnsCache, None)
             | Some res \<Rightarrow>
                 (let compiled = r_compiled res;
                      wr = wrap compiled;
                      cache' = cache\<lparr>error := None, dependencies := r_dependencies res,
                                     source := r_source res, compilationTime := Some now,
                                     data := Some compiled\<rparr>
                  in case updateMap_node pf p compiled wr (r_sourceMap res) of
                       Inl e \<Rightarrow> Inr (cache', Threw e, None)
                     | Inr n \<Rightarrow>
                         Inr (cache', ReturnsUndefined,
                              Some (updateMap pf p compiled wr (r_sourceMap res)))))))"

text \<open>The \<open>then\<close> callback of line 88: \<open>cache.node = node\<close>.\<close>

definition assign_node :: "source_file \<Rightarrow> source_node \<Rightarrow> js_error + source_file" where
  "assign_node cache n = (if frozen cache then Inl TypeError else Inr (cache\<lparr>node := Some n\<rparr>))"

text \<open>How a promise settles. A rejection reason is any value: an error, or \<open>null\<close> or
  \<open>undefined\<close> (\<open>None\<close>).\<close>

datatype 'a settled = Resolved 'a | Rejected "js_error option"

text \<open>
  The function \<open>makeCompiler\<close> returns, from the moment the pipeline settles. The handler
  for a resolved pipeline passes \<open>null\<close> and the data to \<open>updateCache\<close>, the handler for a
  rejected one passes the rejection reason, whatever it is, and \<open>null\<close>. Either handler
  then calls \<open>.then\<close> on what \<open>updateCache\<close> returned; that is the record or \<open>undefined\<close>,
  neither of which has a \<open>then\<close> method, so the call throws a \<open>TypeError\<close> inside the
  handler. Where \<open>updateCache\<close> itself threw, the handler throws that error. In each case
  the promise of the record's compile operation rejects with the error thrown. The
  result is the record after \<open>updateCache\<close>, the node promise it started, and how the
  compile promise settles.
\<close>

definition makeCompiler ::
  "platform \<Rightarrow> nat \<Rightarrow> (string \<Rightarrow> string \<Rightarrow> bool \<Rightarrow> wrapped) \<Rightarrow> source_file \<Rightarrow>
     pipeline_result option settled \<Rightarrow>
     source_file \<times> (js_error + source_node) option \<times> unit settled" where
  "makeCompiler pf now wrapper cache outcome =
     (let normalizedPath = replaceBackSlashes (c_path cache);
          wrap = makeWrapper wrapper (c_path cache) (c_isWrapped cache) (c_isntModule cache);
          r = (case outcome of
                 Resolved d \<Rightarrow> updateCache pf now normalizedPath cache None d wrap
               | Rejected reason \<Rightarrow> updateCache pf now normalizedPath cache reason None wrap)
      in case r of
           Inl e \<Rightarrow> (cache, None, Rejected (Some e))
         | Inr (cache', Threw e, pending) \<Rightarrow> (cache', pending, Rejected (Some e))
         | Inr (cache', ret, pending) \<Rightarrow> (cache', pending, Rejected (Some TypeError)))"

section \<open>\<open>file_list.js\<close>: configuration and ignore rules\<close>

text \<open>
  The values an ignore rule or a convention entry can be, by the tag that
  \<open>toString.call(test).slice(8, -1)\<close> and \<open>typeof\<close> see. A regular expression and a
  function are the predicate they compute on a path, read for truthiness. \<open>RFalsy\<close> is
  \<open>undefined\<close>, \<open>null\<close>, \<open>false\<close>, \<open>0\<close> or \<open>NaN\<close>; \<open>ROther\<close> is any other truthy value.
\<close>

datatype rule =
    RFalsy
  | RRegExp "string \<Rightarrow> bool"
  | RFunction "string \<Rightarrow> bool"
  | RString string
  | RArray "rule list"
  | ROther

text \<open>\<open>!test\<close>: the empty string is falsy as well.\<close>

fun falsy :: "rule \<Rightarrow> bool" where
  "falsy RFalsy = True"
| "falsy (RString s) = (s = [])"
| "falsy _ = False"

text \<open>
  What the constructor takes from the configuration, with the functions of the packages
  \<open>deppack\<close> (\<open>isNpm\<close>, \<open>isNpmJSON\<close>) and \<open>path\<close> (\<open>normalize\<close>) beside it. \<open>conventions\<close> is
  the table \<open>norm.conventions\<close>; its entry \<open>ignored\<close> is the default ignore rule.
\<close>

record config =
  fileListInterval :: nat
  publicPath :: string
  conventions :: "string \<Rightarrow> rule"
  moduleWrapper :: "string \<Rightarrow> string \<Rightarrow> bool \<Rightarrow> wrapped"
  configPaths :: "string list"
  isNpm :: "string \<Rightarrow> bool"
  isNpmJSON :: "string \<Rightarrow> bool"
  normalize :: "string \<Rightarrow> string"

definition defaultInterval :: nat where
  "defaultInterval = 65"

definition resetTime :: "config \<Rightarrow> nat" where
  "resetTime cfg = (if fileListInterval cfg \<noteq> 0 then fileListInterval cfg else defaultInterval)"

text \<open>\<open>Array.prototype.some\<close> over a callback that may not return: elements are tried in
  order and the first truthy answer ends the search.\<close>

fun js_some :: "('a \<Rightarrow> bool option) \<Rightarrow> 'a list \<Rightarrow> bool option" where
  "js_some f [] = Some False"
| "js_some f (x # xs) =
     (case f x of None \<Rightarrow> None | Some True \<Rightarrow> Some True | Some False \<Rightarrow> js_some f xs)"

text \<open>
  \<open>isIgnored\<close>. A falsy rule is replaced by the default rule at every level of the
  recursion, so the recursion is not structural: a default rule that is a list with a
  falsy element calls itself for ever. The first argument bounds the depth of calls;
  \<open>None\<close> means the bound was reached before an answer.
\<close>

fun isIgnored :: "nat \<Rightarrow> config \<Rightarrow> string \<Rightarrow> rule \<Rightarrow> bool option" where
  "isIgnored 0 cfg p test = None"
| "isIgnored (Suc n) cfg p test =
     (if isNpm cfg p then Some False
      else
        (let test' = (if falsy test then conventions cfg ''ignored'' else test)
         in if 0 \<le> js_array_indexOf (\<lambda>x. x = p) (configPaths cfg) then Some True
            else (case test' of
                    RRegExp m \<Rightarrow> Some (m p)
                  | RFunction f \<Rightarrow> Some (f p)
                  | RString s \<Rightarrow> Some (startsWith (normalize cfg p) (normalize cfg s))
                  | RArray ts \<Rightarrow> js_some (\<lambda>subTest. isIgnored n cfg p subTest) ts
                  | _ \<Rightarrow> Some False)))"

text \<open>\<open>is(name, path)\<close>: a missing convention answers \<open>false\<close>, an entry that is not a
  function throws.\<close>

definition is_convention :: "config \<Rightarrow> string \<Rightarrow> string \<Rightarrow> js_error + bool" where
  "is_convention cfg name p =
     (let convention = conventions cfg name
      in if falsy convention then Inr False
         else (case convention of RFunction f \<Rightarrow> Inr (f p) | _ \<Rightarrow> Inl TypeError))"

section \<open>\<open>file_list.js\<close>: the state of a file list\<close>

text \<open>An \<open>Asset\<close> object, as far as the list reads it.\<close>

record asset =
  apath :: string
  aerror :: "js_error option"

text \<open>Strict equality between the two kinds of value that meet in the asset list: a
  string never equals an object.\<close>

datatype 'o js_value = Str string | Obj 'o

fun strict_equals :: "'o js_value \<Rightarrow> 'o js_value \<Rightarrow> bool" where
  "strict_equals (Str a) (Str b) = (a = b)"
| "strict_equals (Obj a) (Obj b) = (a = b)"
| "strict_equals _ _ = False"

datatype event = Ready | Compiled string

text \<open>
  The fields of a \<open>FileList\<close>, and the work the event loop still owes it. \<open>store\<close> is the
  heap of \<open>SourceFile\<close> objects, addressed by the order of their creation; \<open>files\<close> holds
  references into it. \<open>compiling\<close> and \<open>copying\<close> are \<open>Set\<close>s, kept in insertion order.
  \<open>compiled\<close> is the object of marks, read by path (a path that names a property every
  object inherits is not modelled). \<open>timer\<close> says whether a timeout is pending.
  \<open>running\<close> lists the compile operations of records that were started and have not
  settled, each with the path \<open>compile\<close> captured and the record; \<open>marking\<close> lists the
  settled ones whose last \<open>then\<close> callback has not run; \<open>nodes\<close> the composed nodes
  waiting to be assigned; \<open>copies\<close> the asset copies under way. \<open>emitted\<close> logs \<open>emit\<close>,
  and \<open>resets\<close> counts the calls of \<open>resetTimer\<close>.
\<close>

record file_list =
  store :: "nat \<Rightarrow> source_file"
  allocated :: nat
  files :: "nat list"
  assets :: "asset list"
  compiling :: "string list"
  copying :: "string list"
  compiled :: "string \<Rightarrow> bool"
  initial :: bool
  timer :: bool
  running :: "(string \<times> nat) list"
  marking :: "(string \<times> (unit + js_error option) settled) list"
  nodes :: "(nat \<times> source_node) list"
  copies :: "string list"
  emitted :: "event list"
  resets :: nat

text \<open>A call either returns or throws; the state at that moment is kept in both cases,
  since whatever was assigned before a throw stays assigned.\<close>

datatype outcome = Returns file_list | Throws js_error file_list

fun state_of :: "outcome \<Rightarrow> file_list" where
  "state_of (Returns s) = s"
| "state_of (Throws e s) = s"

fun and_then :: "outcome \<Rightarrow> (file_list \<Rightarrow> outcome) \<Rightarrow> outcome" where
  "and_then (Returns s) f = f s"
| "and_then (Throws e s) f = Throws e s"

definition set_add :: "'a \<Rightarrow> 'a list \<Rightarrow> 'a list" where
  "set_add x xs = (if x \<in> set xs then xs else xs @ [x])"

definition set_delete :: "'a \<Rightarrow> 'a list \<Rightarrow> 'a list" where
  "set_delete x xs = removeAll x xs"

text \<open>The constructor. Store cells beyond \<open>allocated\<close> are not objects yet; they hold a
  blank record.\<close>

definition FileList :: file_list where
  "FileList =
     \<lparr>store = (\<lambda>_. SourceFile [] [] False False False), allocated = 0, files = [],
      assets = [], compiling = [], copying = [], compiled = (\<lambda>_. False), initial = True,
      timer = False, running = [], marking = [], nodes = [], copies = [], emitted = [],
      resets = 0\<rparr>"

definition hasFiles :: "file_list \<Rightarrow> bool" where
  "hasFiles s = (0 < length (compiling s) \<or> 0 < length (copying s))"

text \<open>\<open>resetTimer\<close>: a pending timeout is cleared and a new one is set.\<close>

definition resetTimer :: "file_list \<Rightarrow> file_list" where
  "resetTimer s = s\<lparr>timer := True, resets := Suc (resets s)\<rparr>"

text \<open>The callback of the timeout.\<close>

definition timer_fires :: "file_list \<Rightarrow> file_list" where
  "timer_fires s =
     (let s1 = s\<lparr>timer := False, files := filter (\<lambda>f. \<not> disposed (store s f)) (files s)\<rparr>
      in if hasFiles s1 then resetTimer s1
         else s1\<lparr>emitted := emitted s1 @ [Ready], compiled := (\<lambda>_. False)\<rparr>)"

definition find_file :: "file_list \<Rightarrow> string \<Rightarrow> nat option" where
  "find_file s p = List.find (\<lambda>f. path (store s f) = p) (files s)"

definition findAsset :: "file_list \<Rightarrow> string \<Rightarrow> asset option" where
  "findAsset s p = List.find (\<lambda>a. apath a = p) (assets s)"

section \<open>\<open>file_list.js\<close>: compiling, copying and the cascade\<close>

text \<open>\<open>promise.then(onFulfilled, onRejected)\<close>, run at the moment \<open>promise\<close> has settled:
  the handler for the way it settled runs on the state, and its return or throw settles
  the promise that \<open>then\<close> made.\<close>

definition js_then ::
  "('a \<Rightarrow> 's \<Rightarrow> 's \<times> 'b settled) \<Rightarrow> (js_error option \<Rightarrow> 's \<Rightarrow> 's \<times> 'b settled) \<Rightarrow>
     'a settled \<Rightarrow> 's \<Rightarrow> 's \<times> 'b settled" where
  "js_then onFulfilled onRejected pr s =
     (case pr of Resolved v \<Rightarrow> onFulfilled v s | Rejected e \<Rightarrow> onRejected e s)"

text \<open>\<open>then\<close> with one handler passes a rejection on.\<close>

definition js_then1 :: "('a \<Rightarrow> 's \<Rightarrow> 's \<times> 'b settled) \<Rightarrow> 'a settled \<Rightarrow> 's \<Rightarrow> 's \<times> 'b settled" where
  "js_then1 onFulfilled pr s = js_then onFulfilled (\<lambda>e s'. (s', Rejected e)) pr s"

text \<open>The closure \<open>reset\<close> of \<open>compile\<close>: it returns its argument, so the promise made by
  \<open>then(reset, reset)\<close> is resolved with the value or with the error.\<close>

definition reset :: "string \<Rightarrow> 'v \<Rightarrow> file_list \<Rightarrow> file_list \<times> 'v settled" where
  "reset p v s = (resetTimer (s\<lparr>compiling := set_delete p (compiling s)\<rparr>), Resolved v)"

text \<open>The last callback of \<open>compile\<close>.\<close>

definition mark_compiled :: "string \<Rightarrow> 'v \<Rightarrow> file_list \<Rightarrow> file_list \<times> unit settled" where
  "mark_compiled p v s =
     (s\<lparr>compiled := (compiled s)(p := True), emitted := emitted s @ [Compiled p]\<rparr>, Resolved ())"

text \<open>
  \<open>compile(file)\<close>, up to its return. \<open>file.removed = false\<close> comes first and throws on a
  frozen record. Starting the record's compile operation is the new entry of \<open>running\<close>.
\<close>

definition compile :: "file_list \<Rightarrow> nat \<Rightarrow> outcome" where
  "compile s f =
     (let file = store s f; p = path file
      in if frozen file then Throws TypeError s
         else
           (let s1 = s\<lparr>store := (store s)(f := file\<lparr>removed := False\<rparr>)\<rparr>
            in if p \<in> set (compiling s1) then Returns (resetTimer s1)
               else Returns (s1\<lparr>compiling := set_add p (compiling s1),
                                 running := running s1 @ [(p, f)]\<rparr>)))"

text \<open>The record's compile operation has settled with \<open>res\<close>: \<open>then(reset, reset)\<close> runs,
  and the promise it makes waits in \<open>marking\<close> for the last callback.\<close>

definition compile_settled :: "string \<Rightarrow> unit settled \<Rightarrow> file_list \<Rightarrow> file_list" where
  "compile_settled p res s =
     (case js_then (\<lambda>v. reset p (Inl v)) (\<lambda>e. reset p (Inr e)) res s of
        (s1, r) \<Rightarrow> s1\<lparr>marking := marking s1 @ [(p, r)]\<rparr>)"

text \<open>The last \<open>then\<close> of the chain runs for one waiting promise.\<close>

definition compile_marked ::
  "string \<Rightarrow> (unit + js_error option) settled \<Rightarrow> file_list \<Rightarrow> file_list \<times> unit settled" where
  "compile_marked p r s = js_then1 (mark_compiled p) r s"

text \<open>\<open>parents.forEach(this.compile, this)\<close>; a throw ends the loop.\<close>

fun forEach_compile :: "file_list \<Rightarrow> nat list \<Rightarrow> outcome" where
  "forEach_compile s [] = Returns s"
| "forEach_compile s (f # fs) = and_then (compile s f) (\<lambda>s'. forEach_compile s' fs)"

definition parents :: "file_list \<Rightarrow> string \<Rightarrow> nat list" where
  "parents s p =
     filter (\<lambda>dependent.
        (case dependencies (store s dependent) of
           None \<Rightarrow> False
         | Some deps \<Rightarrow> 0 < length deps \<and> 0 \<le> js_array_indexOf (\<lambda>d. d = p) deps \<and>
                        \<not> compiled s (path (store s dependent))))
       (files s)"

definition compileDependencyParents :: "file_list \<Rightarrow> string \<Rightarrow> outcome" where
  "compileDependencyParents s p =
     (let ps = parents s p
      in if length ps = 0 then Returns s else forEach_compile s ps)"

text \<open>\<open>copy(asset)\<close>, up to its return, and the settling of the copy (\<open>resetCopy\<close>).\<close>

definition copy :: "file_list \<Rightarrow> asset \<Rightarrow> file_list" where
  "copy s a = s\<lparr>copying := set_add (apath a) (copying s), copies := copies s @ [apath a]\<rparr>"

definition copy_settled :: "string \<Rightarrow> file_list \<Rightarrow> file_list" where
  "copy_settled p s = resetTimer (s\<lparr>copying := set_delete p (copying s)\<rparr>)"

text \<open>\<open>_add\<close> and \<open>_addAsset\<close>; the new object is returned with the state.\<close>

definition add_file ::
  "config \<Rightarrow> file_list \<Rightarrow> string \<Rightarrow> compiler list \<Rightarrow> bool \<Rightarrow> js_error + (nat \<times> file_list)" where
  "add_file cfg s p compilers isHelper' =
     (case is_convention cfg ''vendor'' p of
        Inl e \<Rightarrow> Inl e
      | Inr isVendor \<Rightarrow>
          (let f = allocated s;
               file = SourceFile p compilers isHelper' isVendor (isNpmJSON cfg p)
           in Inr (f, s\<lparr>store := (store s)(f := file), allocated := Suc f,
                          files := files s @ [f]\<rparr>)))"

definition addAsset :: "file_list \<Rightarrow> string \<Rightarrow> asset \<times> file_list" where
  "addAsset s p =
     (let a = \<lparr>apath = p, aerror = None\<rparr> in (a, s\<lparr>assets := assets s @ [a]\<rparr>))"

section \<open>\<open>file_list.js\<close>: the handlers of \<open>change\<close> and \<open>unlink\<close>\<close>

text \<open>
  Both handlers start with \<open>this.isIgnored(path)\<close>; its answer is the argument \<open>ignored\<close>
  here, and \<open>on_change\<close>, \<open>on_unlink\<close> below put the two together. The callback handed to
  \<open>fcache.updateCache\<close> reads nothing that the handler computed except \<open>ignored\<close>, so
  the handler and its callback are one function of the state in which the callback runs;
  \<open>readError\<close> is the error the callback is called with.
\<close>

text \<open>Lines 189 to 193: the changed file itself is compiled, through the record found
  for its path or a new one.\<close>

definition compile_changed ::
  "config \<Rightarrow> bool \<Rightarrow> file_list \<Rightarrow> string \<Rightarrow> compiler list \<Rightarrow> bool \<Rightarrow> outcome" where
  "compile_changed cfg ignored s p compilers isHelper' =
     (if (\<not> ignored \<and> 0 < length compilers) \<or> isNpmJSON cfg p
      then (case find_file s p of
              Some f \<Rightarrow> compile s f
            | None \<Rightarrow>
                (case add_file cfg s p compilers isHelper' of
                   Inl e \<Rightarrow> Throws e s
                 | Inr (f, s1) \<Rightarrow> compile s1 f))
      else Returns s)"

definition change ::
  "config \<Rightarrow> bool \<Rightarrow> file_list \<Rightarrow> string \<Rightarrow> compiler list \<Rightarrow> bool \<Rightarrow> js_error option \<Rightarrow> outcome" where
  "change cfg ignored s p compilers isHelper' readError =
     (case is_convention cfg ''assets'' p of
        Inl e \<Rightarrow> Throws e s
      | Inr True \<Rightarrow>
          (if \<not> ignored
           then (case findAsset s p of
                   Some a \<Rightarrow> Returns (copy s a)
                 | None \<Rightarrow> (case addAsset s p of (a, s1) \<Rightarrow> Returns (copy s1 a)))
           else Returns s)
      | Inr False \<Rightarrow>
          (if readError \<noteq> None then Throws (Error ''Reading'') s
           else
             and_then (compile_changed cfg ignored s p compilers isHelper')
               (\<lambda>s2. and_then
                  (if \<not> initial s2 then compileDependencyParents s2 p else Returns s2)
                  (\<lambda>s3. Returns (resetTimer s3)))))"

text \<open>\<open>file.removed = true\<close>, an assignment like any other.\<close>

definition set_removed :: "file_list \<Rightarrow> nat \<Rightarrow> outcome" where
  "set_removed s f =
     (if frozen (store s f) then Throws TypeError s
      else Returns (s\<lparr>store := (store s)(f := (store s f)\<lparr>removed := True\<rparr>)\<rparr>))"

definition unlink :: "config \<Rightarrow> bool \<Rightarrow> file_list \<Rightarrow> string \<Rightarrow> outcome" where
  "unlink cfg ignored s p =
     (case is_convention cfg ''assets'' p of
        Inl e \<Rightarrow> Throws e s
      | Inr isAsset \<Rightarrow>
          and_then
            (if isAsset
             then (if \<not> ignored
                   then Returns (s\<lparr>assets :=
                          js_splice (assets s)
                            (js_array_indexOf (\<lambda>a. strict_equals (Obj a) (Str p)) (assets s)) 1\<rparr>)
                   else Returns s)
             else (if ignored then compileDependencyParents s p
                   else (case find_file s p of
                           None \<Rightarrow> Returns s
                         | Some f \<Rightarrow>
                             if \<not> disposed (store s f) then set_removed s f else Returns s)))
            (\<lambda>s'. Returns (resetTimer s')))"

text \<open>The handlers with their call of \<open>isIgnored\<close>, which may not return (\<open>None\<close>).\<close>

definition on_change ::
  "nat \<Rightarrow> config \<Rightarrow> file_list \<Rightarrow> string \<Rightarrow> compiler list \<Rightarrow> bool \<Rightarrow> js_error option \<Rightarrow> outcome option" where
  "on_change depth cfg s p compilers isHelper' readError =
     (case isIgnored depth cfg p RFalsy of
        None \<Rightarrow> None
      | Some ignored \<Rightarrow> Some (change cfg ignored s p compilers isHelper' readError))"

definition on_unlink :: "nat \<Rightarrow> config \<Rightarrow> file_list \<Rightarrow> string \<Rightarrow> outcome option" where
  "on_unlink depth cfg s p =
     (case isIgnored depth cfg p RFalsy of
        None \<Rightarrow> None
      | Some ignored \<Rightarrow> Some (unlink cfg ignored s p))"

section \<open>The states a file list can be in\<close>

text \<open>
  The event loop runs one piece of owed work at a time. \<open>drop_nth\<close> takes an entry off a
  list of owed work.
\<close>

definition drop_nth :: "nat \<Rightarrow> 'a list \<Rightarrow> 'a list" where
  "drop_nth i xs = take i xs @ drop (Suc i) xs"

text \<open>The pipeline of the \<open>i\<close>-th running compile settles with \<open>out\<close>: the handlers of
  \<open>makeCompiler\<close> update the record, the node promise (if it resolves) is queued, and the
  compile promise settles, which runs \<open>reset\<close>. These are consecutive jobs of the promise
  queue; they are taken as one step.\<close>

definition pipeline_settled ::
  "config \<Rightarrow> platform \<Rightarrow> nat \<Rightarrow> nat \<Rightarrow> pipeline_result option settled \<Rightarrow> file_list \<Rightarrow> file_list" where
  "pipeline_settled cfg pf now i out s =
     (if i < length (running s)
      then (case running s ! i of
              (p, f) \<Rightarrow>
                (case makeCompiler pf now (moduleWrapper cfg) (store s f) out of
                   (cache', pending, res) \<Rightarrow>
                     compile_settled p res
                       (s\<lparr>store := (store s)(f := cache'),
                          running := drop_nth i (running s),
                          nodes := nodes s @ (case pending of Some (Inr n) \<Rightarrow> [(f, n)] | _ \<Rightarrow> [])\<rparr>)))
      else s)"

definition marking_runs :: "nat \<Rightarrow> file_list \<Rightarrow> file_list" where
  "marking_runs i s =
     (if i < length (marking s)
      then (case marking s ! i of
              (p, r) \<Rightarrow> fst (compile_marked p r (s\<lparr>marking := drop_nth i (marking s)\<rparr>)))
      else s)"

definition node_ready :: "nat \<Rightarrow> file_list \<Rightarrow> file_list" where
  "node_ready i s =
     (if i < length (nodes s)
      then (case nodes s ! i of
              (f, n) \<Rightarrow>
                (case assign_node (store s f) n of
                   Inl e \<Rightarrow> s\<lparr>nodes := drop_nth i (nodes s)\<rparr>
                 | Inr cache' \<Rightarrow> s\<lparr>nodes := drop_nth i (nodes s), store := (store s)(f := cache')\<rparr>))
      else s)"

definition copy_done :: "nat \<Rightarrow> file_list \<Rightarrow> file_list" where
  "copy_done i s =
     (if i < length (copies s)
      then copy_settled (copies s ! i) (s\<lparr>copies := drop_nth i (copies s)\<rparr>)
      else s)"

text \<open>A user of the list disposes of one of its records.\<close>

definition dispose_file :: "file_list \<Rightarrow> nat \<Rightarrow> file_list" where
  "dispose_file s f =
     (case dispose (store s f) of Inl e \<Rightarrow> s | Inr file \<Rightarrow> s\<lparr>store := (store s)(f := file)\<rparr>)"

text \<open>
  The reachable states: the constructor's state, and from a reachable state whatever a
  \<open>change\<close> or \<open>unlink\<close> event, a piece of owed work, the timeout, the disposal of a record
  or an assignment to \<open>initial\<close> leaves behind, also when the handler threw.
\<close>

inductive reachable :: "config \<Rightarrow> file_list \<Rightarrow> bool" for cfg :: config where
  constructed: "reachable cfg FileList"
| changed: "reachable cfg s \<Longrightarrow> on_change depth cfg s p compilers h readError = Some out \<Longrightarrow>
     reachable cfg (state_of out)"
| unlinked: "reachable cfg s \<Longrightarrow> on_unlink depth cfg s p = Some out \<Longrightarrow>
     reachable cfg (state_of out)"
| settled: "reachable cfg s \<Longrightarrow> reachable cfg (pipeline_settled cfg pf now i out s)"
| marked: "reachable cfg s \<Longrightarrow> reachable cfg (marking_runs i s)"
| node_assigned: "reachable cfg s \<Longrightarrow> reachable cfg (node_ready i s)"
| copied: "reachable cfg s \<Longrightarrow> reachable cfg (copy_done i s)"
| timeout: "reachable cfg s \<Longrightarrow> timer s \<Longrightarrow> reachable cfg (timer_fires s)"
| disposal: "reachable cfg s \<Longrightarrow> f < allocated s \<Longrightarrow> reachable cfg (dispose_file s f)"
| first_build: "reachable cfg s \<Longrightarrow> reachable cfg (s\<lparr>initial := b\<rparr>)"

text \<open>The number of compile operations under way for a path.\<close>

definition in_flight :: "file_list \<Rightarrow> string \<Rightarrow> nat" where
  "in_flight s p = length (filter (\<lambda>t. fst t = p) (running s))"

section \<open>Invariants\<close>

text \<open>The running compile operations and the compiling set describe each other, and
  neither holds a path twice.\<close>

definition tasks_ok :: "file_list \<Rightarrow> bool" where
  "tasks_ok s \<longleftrightarrow>
     distinct (map fst (running s)) \<and> distinct (compiling s) \<and>
     set (compiling s) = fst ` set (running s)"

text \<open>A record is frozen exactly when it is disposed, and then it has neither a path
  nor dependencies; until then its path is the one its compile closure captured.\<close>

definition record_ok :: "source_file \<Rightarrow> bool" where
  "record_ok file \<longleftrightarrow>
     (disposed file \<longleftrightarrow> frozen file) \<and>
     (frozen file \<longrightarrow> dependencies file = Some [] \<and> path file = []) \<and>
     (\<not> frozen file \<longrightarrow> c_path file = path file)"

definition store_ok :: "file_list \<Rightarrow> bool" where
  "store_ok s \<longleftrightarrow> (\<forall>f. record_ok (store s f))"

text \<open>The file list and the running compile operations refer to records that exist, and
  a compile operation runs the pipeline on the path it is registered under.\<close>

definition runs_ok :: "file_list \<Rightarrow> bool" where
  "runs_ok s \<longleftrightarrow>
     (\<forall>t \<in> set (running s). snd t < allocated s \<and> c_path (store s (snd t)) = fst t) \<and>
     (\<forall>f \<in> set (files s). f < allocated s)"

definition wf :: "file_list \<Rightarrow> bool" where
  "wf s \<longleftrightarrow> tasks_ok s \<and> store_ok s \<and> runs_ok s"

section \<open>Ignore rules for which \<open>isIgnored\<close> returns\<close>

text \<open>A rule without a falsy value, itself or at any depth of its lists, and the depth
  to which its lists are nested.\<close>

fun total_rule :: "rule \<Rightarrow> bool" where
  "total_rule RFalsy = False"
| "total_rule (RString s) = (s \<noteq> [])"
| "total_rule (RArray ts) = list_all total_rule ts"
| "total_rule _ = True"

fun rule_depth :: "rule \<Rightarrow> nat" where
  "rule_depth (RArray ts) = Suc (foldr max (map rule_depth ts) 0)"
| "rule_depth _ = 0"

section \<open>A small configuration to run the model on\<close>

definition demo_config :: config where
  "demo_config =
     \<lparr>fileListInterval = 0, publicPath = ''public'',
      conventions = (\<lambda>name.
        if name = ''assets'' then RFunction (\<lambda>p. startsWith p ''app/assets/'')
        else if name = ''ignored'' then RFunction (\<lambda>p. startsWith p ''app/_'')
        else RFalsy),
      moduleWrapper = (\<lambda>p compiled isntModule. WString compiled),
      configPaths = [''brunch-config.js''],
      isNpm = (\<lambda>p. startsWith p ''node_modules/''),
      isNpmJSON = (\<lambda>p. False),
      normalize = (\<lambda>p. p)\<rparr>"

text \<open>A source map as an object and as JSON text, and a platform on which \<open>JSON.parse\<close>
  reads that text and every file has the same content.\<close>

definition demo_map :: mapping where
  "demo_map = \<lparr>sources = Some [''a.coffee'', ''b.coffee''], sourcesContent = []\<rparr>"

definition demo_map_text :: string where
  \<open>demo_map_text = ''{"version":3,"sources":["a.coffee","b.coffee"],"names":[],"mappings":"AAAA"}''\<close>

definition demo_platform :: platform where
  "demo_platform =
     \<lparr>isWindows = False,
      json_parse = (\<lambda>text. if text = demo_map_text then Some demo_map else None),
      readFile = (\<lambda>p. Some ''content'')\<rparr>"

text \<open>The state after a first change event for \<open>app/a.js\<close>.\<close>

definition demo_compiling :: file_list where
  "demo_compiling = state_of (change demo_config False FileList ''app/a.js'' [Some ''javascript''] False None)"

text \<open>The state after an unlink event for the same path while it compiles.\<close>

definition demo_removed :: file_list where
  "demo_removed = state_of (unlink demo_config False demo_compiling ''app/a.js'')"

text \<open>The state after the pipeline has resolved for that first compile, reporting a
  dependency on \<open>app/_vars.js\<close>, a path the ignore rule matches.\<close>

definition demo_result :: pipeline_result where
  "demo_result =
     \<lparr>r_source = ''x = 1'', r_compiled = ''var x=1;'',
      r_dependencies = Some [''app/_vars.js''], r_sourceMap = None\<rparr>"

definition demo_settled :: file_list where
  "demo_settled = pipeline_settled demo_config demo_platform 7 0 (Resolved (Some demo_result)) demo_compiling"

text \<open>The state after change events for two assets.\<close>

definition demo_assets :: file_list where
  "demo_assets =
     state_of (change demo_config False
       (state_of (change demo_config False FileList ''app/assets/a.png'' [] False None))
       ''app/assets/b.png'' [] False None)"

text \<open>A record that already has a composed node.\<close>

definition demo_with_node :: source_file where
  "demo_with_node =
     (SourceFile ''app/a.js'' [Some ''javascript''] False False False)
       \<lparr>data := Some ''var x=1;'', node := Some (identityNode ''var x=1;'' ''app/a.js'')\<rparr>"


text \<open>The state after the record of \<open>app/a.js\<close> has been disposed of, and the state
  after the first build is over.\<close>

definition demo_disposed :: file_list where
  "demo_disposed = dispose_file demo_settled 0"

definition demo_later :: file_list where
  "demo_later = demo_settled\<lparr>initial := False\<rparr>"

section \<open>The invariants hold in every reachable state\<close>

lemma tasks_ok_resetTimer [simp]: "tasks_ok (resetTimer s) = tasks_ok s"
  by (simp add: tasks_ok_def resetTimer_def)

lemma store_ok_resetTimer [simp]: "store_ok (resetTimer s) = store_ok s"
  by (simp add: store_ok_def resetTimer_def)

lemma runs_ok_resetTimer [simp]: "runs_ok (resetTimer s) = runs_ok s"
  by (simp add: runs_ok_def resetTimer_def)

lemma wf_resetTimer [simp]: "wf (resetTimer s) = wf s"
  by (simp add: wf_def)

lemma wf_frame:
  "running s' = running s \<Longrightarrow> compiling s' = compiling s \<Longrightarrow> store s' = store s \<Longrightarrow>
     allocated s' = allocated s \<Longrightarrow> files s' = files s \<Longrightarrow> wf s' = wf s"
  by (simp add: wf_def tasks_ok_def store_ok_def runs_ok_def)

text \<open>\<open>compile\<close> leaves the list of files and the number of records alone.\<close>

lemma compile_keeps:
  "allocated (state_of (compile s f)) = allocated s"
  "files (state_of (compile s f)) = files s"
  by (simp_all add: compile_def Let_def resetTimer_def)

lemma tasks_ok_compile: "tasks_ok s \<Longrightarrow> tasks_ok (state_of (compile s f))"
  by (auto simp: compile_def Let_def tasks_ok_def set_add_def resetTimer_def)

lemma store_ok_compile: "store_ok s \<Longrightarrow> store_ok (state_of (compile s f))"
  by (auto simp: compile_def Let_def store_ok_def record_ok_def resetTimer_def)

lemma runs_ok_compile:
  assumes "store_ok s" and "runs_ok s" and "f < allocated s"
  shows "runs_ok (state_of (compile s f))"
proof (cases "frozen (store s f)")
  case True
  then show ?thesis using assms(2) by (simp add: compile_def Let_def)
next
  case False
  have "record_ok (store s f)" using assms(1) by (simp add: store_ok_def)
  then have c: "c_path (store s f) = path (store s f)" using False by (simp add: record_ok_def)
  show ?thesis
    using False assms(2,3) c
    by (cases "path (store s f) \<in> set (compiling s)")
      (auto simp: compile_def Let_def runs_ok_def resetTimer_def)
qed

lemma wf_compile: "wf s \<Longrightarrow> f < allocated s \<Longrightarrow> wf (state_of (compile s f))"
  by (simp add: wf_def tasks_ok_compile store_ok_compile runs_ok_compile)

lemma wf_forEach:
  "wf s \<Longrightarrow> \<forall>f \<in> set fs. f < allocated s \<Longrightarrow> wf (state_of (forEach_compile s fs))"
proof (induction fs arbitrary: s)
  case Nil
  then show ?case by simp
next
  case (Cons f fs)
  from Cons.prems have w: "wf (state_of (compile s f))" by (simp add: wf_compile)
  show ?case
  proof (cases "compile s f")
    case (Returns s1)
    then have "allocated s1 = allocated s" using compile_keeps(1)[of s f] by simp
    then show ?thesis using Returns w Cons.prems(2) Cons.IH[of s1] by simp
  next
    case (Throws e s1)
    then show ?thesis using w by simp
  qed
qed

lemma parents_in_files: "set (parents s p) \<subseteq> set (files s)"
  by (auto simp: parents_def)

lemma wf_files_allocated: "wf s \<Longrightarrow> f \<in> set (files s) \<Longrightarrow> f < allocated s"
  by (simp add: wf_def runs_ok_def)

lemma wf_cascade: "wf s \<Longrightarrow> wf (state_of (compileDependencyParents s p))"
proof -
  assume w: "wf s"
  then have "\<forall>f \<in> set (parents s p). f < allocated s"
    using parents_in_files[of s p] wf_files_allocated by blast
  then have "wf (state_of (forEach_compile s (parents s p)))" using w by (rule wf_forEach[rotated])
  then show ?thesis using w by (simp add: compileDependencyParents_def Let_def)
qed

text \<open>Chaining keeps whatever every link keeps.\<close>

lemma state_of_and_then:
  assumes "P (state_of r)" and "\<And>s'. P s' \<Longrightarrow> P (state_of (g s'))"
  shows "P (state_of (and_then r g))"
  using assms by (cases r) auto

lemma record_ok_SourceFile [simp]: "record_ok (SourceFile p cs h v j)"
  by (simp add: SourceFile_def record_ok_def Let_def)

lemma add_file_result:
  assumes "add_file cfg s p cs h = Inr (f, s1)"
  shows "f = allocated s" and "allocated s1 = Suc (allocated s)"
    and "running s1 = running s" and "compiling s1 = compiling s"
    and "files s1 = files s @ [f]"
    and "\<exists>v. store s1 = (store s)(f := SourceFile p cs h v (isNpmJSON cfg p))"
  using assms by (auto simp: add_file_def Let_def split: sum.splits)

lemma wf_add_file:
  assumes "add_file cfg s p cs h = Inr (f, s1)" and "wf s"
  shows "wf s1" and "f < allocated s1"
proof -
  note r = add_file_result[OF assms(1)]
  from r(6) obtain v where st: "store s1 = (store s)(f := SourceFile p cs h v (isNpmJSON cfg p))"
    by blast
  have "tasks_ok s1" using assms(2) r(3,4) by (simp add: wf_def tasks_ok_def)
  moreover have "store_ok s1" using assms(2) st by (simp add: wf_def store_ok_def)
  moreover have "runs_ok s1"
    using assms(2) r(1,2,3,5) st by (auto simp: wf_def runs_ok_def less_Suc_eq)
  ultimately show "wf s1" by (simp add: wf_def)
  show "f < allocated s1" using r(1,2) by simp
qed

lemma find_file_in_files: "find_file s p = Some f \<Longrightarrow> f \<in> set (files s)"
  by (auto simp: find_file_def find_Some_iff)

lemma wf_copy [simp]: "wf (copy s a) = wf s"
  by (rule wf_frame) (simp_all add: copy_def)

lemma wf_addAsset: "addAsset s p = (a, s1) \<Longrightarrow> wf s1 = wf s"
  by (rule wf_frame) (auto simp: addAsset_def Let_def)

lemma wf_compile_changed:
  assumes "wf s"
  shows "wf (state_of (compile_changed cfg ig s p cs h))"
proof (cases "(\<not> ig \<and> 0 < length cs) \<or> isNpmJSON cfg p")
  case False
  then show ?thesis using assms by (auto simp: compile_changed_def)
next
  case True
  show ?thesis
  proof (cases "find_file s p")
    case (Some f)
    then have "f < allocated s" using assms find_file_in_files wf_files_allocated by blast
    then show ?thesis using True Some assms by (simp add: compile_changed_def wf_compile)
  next
    case None
    show ?thesis
    proof (cases "add_file cfg s p cs h")
      case (Inl e)
      then show ?thesis using True None assms by (simp add: compile_changed_def)
    next
      case (Inr r)
      obtain f s1 where r: "r = (f, s1)" by (cases r)
      from wf_add_file[OF Inr[unfolded r] assms] show ?thesis
        using True None Inr r by (simp add: compile_changed_def wf_compile)
    qed
  qed
qed

lemma wf_change: "wf s \<Longrightarrow> wf (state_of (change cfg ig s p cs h re))"
proof (cases "is_convention cfg ''assets'' p")
  case (Inl e)
  assume "wf s" then show ?thesis using Inl by (simp add: change_def)
next
  case (Inr b)
  assume w: "wf s"
  show ?thesis
  proof (cases b)
    case True
    then show ?thesis using Inr w
      by (auto simp: change_def wf_addAsset split: option.splits prod.splits)
  next
    case False
    have "wf (state_of (and_then (compile_changed cfg ig s p cs h)
               (\<lambda>s2. and_then
                  (if \<not> initial s2 then compileDependencyParents s2 p else Returns s2)
                  (\<lambda>s3. Returns (resetTimer s3)))))"
    proof (rule state_of_and_then[where P = wf])
      show "wf (state_of (compile_changed cfg ig s p cs h))" using w by (rule wf_compile_changed)
    next
      fix s' assume "wf s'"
      then show "wf (state_of (and_then
           (if \<not> initial s' then compileDependencyParents s' p else Returns s')
           (\<lambda>s3. Returns (resetTimer s3))))"
        by (intro state_of_and_then[where P = wf]) (simp_all add: wf_cascade)
    qed
    then show ?thesis using False Inr w by (simp add: change_def)
  qed
qed

lemma wf_set_removed: "wf s \<Longrightarrow> wf (state_of (set_removed s f))"
  by (auto simp: set_removed_def wf_def tasks_ok_def store_ok_def record_ok_def runs_ok_def)

lemma wf_unlink: "wf s \<Longrightarrow> wf (state_of (unlink cfg ig s p))"
proof (cases "is_convention cfg ''assets'' p")
  case (Inl e)
  assume "wf s" then show ?thesis using Inl by (simp add: unlink_def)
next
  case (Inr b)
  assume w: "wf s"
  have "wf (state_of (and_then
            (if b
             then (if \<not> ig
                   then Returns (s\<lparr>assets :=
                          js_splice (assets s)
                            (js_array_indexOf (\<lambda>a. strict_equals (Obj a) (Str p)) (assets s)) 1\<rparr>)
                   else Returns s)
             else (if ig then compileDependencyParents s p
                   else (case find_file s p of
                           None \<Rightarrow> Returns s
                         | Some f \<Rightarrow>
                             if \<not> disposed (store s f) then set_removed s f else Returns s)))
            (\<lambda>s'. Returns (resetTimer s'))))"
  proof (rule state_of_and_then[where P = wf])
    have "wf (s\<lparr>assets := x\<rparr>)" for x using w wf_frame[of "s\<lparr>assets := x\<rparr>" s] by simp
    then show "wf (state_of (if b
             then (if \<not> ig
                   then Returns (s\<lparr>assets :=
                          js_splice (assets s)
                            (js_array_indexOf (\<lambda>a. strict_equals (Obj a) (Str p)) (assets s)) 1\<rparr>)
                   else Returns s)
             else (if ig then compileDependencyParents s p
                   else (case find_file s p of
                           None \<Rightarrow> Returns s
                         | Some f \<Rightarrow>
                             if \<not> disposed (store s f) then set_removed s f else Returns s))))"
      using w by (simp add: wf_cascade wf_set_removed split: option.splits)
  qed simp
  then show ?thesis using Inr by (simp add: unlink_def)
qed

lemma updateCache_keeps:
  "updateCache pf now p cache err result wrap = Inr (cache', ret, pending) \<Longrightarrow>
     (record_ok cache \<longrightarrow> record_ok cache') \<and> c_path cache' = c_path cache"
  by (auto simp: updateCache_def record_ok_def Let_def split: if_splits option.splits sum.splits)

lemma makeCompiler_keeps:
  "makeCompiler pf now w cache out = (cache', pending, res) \<Longrightarrow>
     (record_ok cache \<longrightarrow> record_ok cache') \<and> c_path cache' = c_path cache"
  by (auto simp: makeCompiler_def Let_def dest: updateCache_keeps
      split: settled.splits sum.splits prod.splits returned.splits)

lemma compile_settled_fields:
  "running (compile_settled p res s) = running s"
  "compiling (compile_settled p res s) = removeAll p (compiling s)"
  "store (compile_settled p res s) = store s"
  "allocated (compile_settled p res s) = allocated s"
  "files (compile_settled p res s) = files s"
  by (simp_all add: compile_settled_def js_then_def reset_def resetTimer_def set_delete_def
      split: settled.splits)

lemma drop_nth_simps [simp]:
  "drop_nth i [] = []"
  "drop_nth 0 (x # xs) = xs"
  "drop_nth (Suc i) (x # xs) = x # drop_nth i xs"
  by (simp_all add: drop_nth_def)

lemma set_drop_nth: "set (drop_nth i xs) \<subseteq> set xs"
  unfolding drop_nth_def using set_take_subset[of i xs] set_drop_subset[of "Suc i" xs] by auto

lemma distinct_drop_nth: "distinct (map fst xs) \<Longrightarrow> distinct (map fst (drop_nth i xs))"
proof (induction xs arbitrary: i)
  case Nil then show ?case by simp
next
  case (Cons x xs)
  show ?case
  proof (cases i)
    case 0 then show ?thesis using Cons.prems by simp
  next
    case (Suc j)
    then show ?thesis using Cons set_drop_nth[of j xs] by auto
  qed
qed

text \<open>Taking the only entry of a path off the list takes the path off its set.\<close>

lemma fst_set_drop_nth:
  "distinct (map fst xs) \<Longrightarrow> i < length xs \<Longrightarrow>
     fst ` set (drop_nth i xs) = fst ` set xs - {fst (xs ! i)}"
proof (induction xs arbitrary: i)
  case Nil then show ?case by simp
next
  case (Cons x xs)
  show ?case
  proof (cases i)
    case 0 then show ?thesis using Cons.prems by auto
  next
    case (Suc j)
    with Cons.prems have j: "j < length xs" and d: "distinct (map fst xs)" by auto
    have "fst (xs ! j) \<in> fst ` set xs" using j by simp
    moreover have "fst x \<notin> fst ` set xs" using Cons.prems(1) by simp
    ultimately have "fst x \<noteq> fst (xs ! j)" by metis
    then show ?thesis using Cons.IH[OF d j] Suc by auto
  qed
qed

lemma wf_pipeline_settled: "wf s \<Longrightarrow> wf (pipeline_settled cfg pf now i out s)"
proof (cases "i < length (running s)")
  case False
  assume "wf s" then show ?thesis using False by (simp add: pipeline_settled_def)
next
  case True
  assume w: "wf s"
  obtain p f where pf: "running s ! i = (p, f)" by (cases "running s ! i")
  obtain c pend res where mk: "makeCompiler pf now (moduleWrapper cfg) (store s f) out = (c, pend, res)"
    by (cases "makeCompiler pf now (moduleWrapper cfg) (store s f) out")
  have d: "distinct (map fst (running s))" and dc: "distinct (compiling s)"
    and eq: "set (compiling s) = fst ` set (running s)"
    using w by (simp_all add: wf_def tasks_ok_def)
  have "fst ` set (drop_nth i (running s)) = set (compiling s) - {p}"
    using fst_set_drop_nth[OF d True] pf eq by simp
  then have t: "tasks_ok (pipeline_settled cfg pf now i out s)"
    using True pf mk d dc
    by (simp add: pipeline_settled_def tasks_ok_def compile_settled_fields distinct_drop_nth
        distinct_removeAll)
  have k: "record_ok c" "c_path c = c_path (store s f)"
    using makeCompiler_keeps[OF mk] w by (simp_all add: wf_def store_ok_def)
  then have st: "store_ok (pipeline_settled cfg pf now i out s)"
    using True pf mk w
    by (simp add: pipeline_settled_def wf_def store_ok_def compile_settled_fields)
  have "runs_ok (pipeline_settled cfg pf now i out s)"
    using True pf mk w k(2) set_drop_nth[of i "running s"]
    by (auto simp: pipeline_settled_def wf_def runs_ok_def compile_settled_fields)
  then show ?thesis using t st by (simp add: wf_def)
qed

lemma wf_marking_runs: "wf s \<Longrightarrow> wf (marking_runs i s)"
proof -
  have "running (marking_runs i s) = running s \<and> compiling (marking_runs i s) = compiling s
      \<and> store (marking_runs i s) = store s \<and> allocated (marking_runs i s) = allocated s
      \<and> files (marking_runs i s) = files s"
    by (simp add: marking_runs_def compile_marked_def js_then1_def js_then_def mark_compiled_def
        split: prod.splits settled.splits)
  then show "wf s \<Longrightarrow> wf (marking_runs i s)" using wf_frame by blast
qed

lemma wf_node_ready: "wf s \<Longrightarrow> wf (node_ready i s)"
  by (auto simp: node_ready_def assign_node_def wf_def tasks_ok_def store_ok_def record_ok_def
      runs_ok_def split: prod.splits sum.splits if_splits)

lemma wf_copy_done: "wf s \<Longrightarrow> wf (copy_done i s)"
proof -
  have "running (copy_done i s) = running s \<and> compiling (copy_done i s) = compiling s
      \<and> store (copy_done i s) = store s \<and> allocated (copy_done i s) = allocated s
      \<and> files (copy_done i s) = files s"
    by (simp add: copy_done_def copy_settled_def resetTimer_def)
  then show "wf s \<Longrightarrow> wf (copy_done i s)" using wf_frame by blast
qed

lemma wf_timer_fires: "wf s \<Longrightarrow> wf (timer_fires s)"
  by (auto simp: timer_fires_def Let_def resetTimer_def wf_def tasks_ok_def store_ok_def
      runs_ok_def)

lemma wf_dispose_file: "wf s \<Longrightarrow> wf (dispose_file s f)"
  by (auto simp: dispose_file_def dispose_def wf_def tasks_ok_def store_ok_def record_ok_def
      runs_ok_def)

lemma wf_FileList: "wf FileList"
  by (simp add: FileList_def wf_def tasks_ok_def store_ok_def runs_ok_def)

lemma reachable_wf: "reachable cfg s \<Longrightarrow> wf s"
proof (induction rule: reachable.induct)
  case constructed
  show ?case by (rule wf_FileList)
next
  case (changed s depth p compilers h readError out)
  then show ?case by (auto simp: on_change_def wf_change split: option.splits)
next
  case (unlinked s depth p out)
  then show ?case by (auto simp: on_unlink_def wf_unlink split: option.splits)
next
  case (first_build s b)
  then show ?case using wf_frame[of "s\<lparr>initial := b\<rparr>" s] by simp
qed (simp_all add: wf_pipeline_settled wf_marking_runs wf_node_ready wf_copy_done
      wf_timer_fires wf_dispose_file)

section \<open>Strings\<close>

lemma js_indexOf_from_range: "js_indexOf_from s sub i = - 1 \<or> (int i \<le> js_indexOf_from s sub i \<and> js_indexOf_from s sub i \<le> int (i + length s))"
  by (induction s sub i rule: js_indexOf_from.induct) auto

lemma js_indexOf_from_found:
  "js_indexOf_from s sub i = int (i + k) \<Longrightarrow> k \<le> length s \<and> take (length sub) (drop k s) = sub"
proof (induction s sub i arbitrary: k rule: js_indexOf_from.induct)
  case (1 sub i)
  then show ?case by (auto split: if_splits)
next
  case (2 c t sub i)
  show ?case
  proof (cases "take (length sub) (c # t) = sub")
    case True
    with 2 show ?thesis by simp
  next
    case False
    with 2(2) have eq: "js_indexOf_from t sub (Suc i) = int (i + k)" by simp
    from js_indexOf_from_range[of t sub "Suc i"] eq have "k \<noteq> 0" by auto
    then obtain k' where k: "k = Suc k'" by (cases k) auto
    with eq have "js_indexOf_from t sub (Suc i) = int (Suc i + k')" by simp
    from 2(1)[OF False this] show ?thesis using k by simp
  qed
qed

lemma js_indexOf_zero_iff: "js_indexOf w c = 0 \<longleftrightarrow> take (length c) w = c"
  unfolding js_indexOf_def using js_indexOf_from_range[of "tl w" c 1]
  by (cases w) auto

lemma js_indexOf_ge: "- 1 \<le> js_indexOf w c"
  unfolding js_indexOf_def using js_indexOf_from_range[of w c 0] by auto

lemma js_indexOf_pos:
  assumes "0 < js_indexOf w c"
  shows "nat (js_indexOf w c) \<le> length w \<and> take (length c) (drop (nat (js_indexOf w c)) w) = c"
proof -
  have "js_indexOf_from w c 0 = int (0 + nat (js_indexOf w c))" using assms by (simp add: js_indexOf_def)
  from js_indexOf_from_found[OF this] show ?thesis .
qed

lemma parts_string:
  "wrapper_parts (WString w) c = Inr (Some (js_slice w 0 (Some (js_indexOf w c))),
      Some (js_slice w (js_indexOf w c + int (length c)) None),
      if 0 < js_indexOf w c then c else w)"
  by (simp add: wrapper_parts_def Let_def)

lemma addSources_chunks: "addSources rd ps n = Inr n' \<Longrightarrow> chunks n' = chunks n"
  by (induction ps arbitrary: n) (auto simp: setSourceContent_def split: option.splits)

lemma render_updateMap_string:
  assumes "updateMap pf p c (WString w) sm = Inr n"
  shows "render n = js_slice w 0 (Some (js_indexOf w c)) @ (if 0 < js_indexOf w c then c else w)
           @ js_slice w (js_indexOf w c + int (length c)) None"
  using assms
  by (auto simp: updateMap_def updateMap_node_def parts_string Let_def render_def truthy_str_def prepend_def add_def
      setSourceContent_def identityNode_def fromStringWithSourceMap_def
      dest!: addSources_chunks split: if_splits sum.splits)

section \<open>The cascade, and what a settled pipeline changes\<close>

lemma js_array_indexOf_from_range:
  "js_array_indexOf_from eq xs i = - 1 \<or> int i \<le> js_array_indexOf_from eq xs i"
  by (induction xs arbitrary: i) (auto, force)

lemma js_array_indexOf_from_found:
  "0 \<le> js_array_indexOf_from eq xs i \<longleftrightarrow> (\<exists>x \<in> set xs. eq x)"
  by (induction xs arbitrary: i) auto

lemma js_array_indexOf_found: "0 \<le> js_array_indexOf eq xs \<longleftrightarrow> (\<exists>x \<in> set xs. eq x)"
  by (simp add: js_array_indexOf_def js_array_indexOf_from_found)

lemma parents_eq:
  assumes "store_ok s"
  shows "parents s p =
     filter (\<lambda>f. \<not> disposed (store s f) \<and> \<not> compiled s (path (store s f)) \<and>
                 (case dependencies (store s f) of None \<Rightarrow> False | Some deps \<Rightarrow> p \<in> set deps))
       (files s)"
  unfolding parents_def
proof (rule filter_cong[OF refl])
  fix f
  have r: "record_ok (store s f)" using assms by (simp add: store_ok_def)
  show "(case dependencies (store s f) of None \<Rightarrow> False
         | Some deps \<Rightarrow> 0 < length deps \<and> 0 \<le> js_array_indexOf (\<lambda>d. d = p) deps \<and>
                        \<not> compiled s (path (store s f))) =
        (\<not> disposed (store s f) \<and> \<not> compiled s (path (store s f)) \<and>
           (case dependencies (store s f) of None \<Rightarrow> False | Some deps \<Rightarrow> p \<in> set deps))"
    using r by (cases "dependencies (store s f)") (auto simp: js_array_indexOf_found record_ok_def)
qed

lemma parents_not_frozen: "store_ok s \<Longrightarrow> f \<in> set (parents s p) \<Longrightarrow> \<not> frozen (store s f)"
  by (auto simp: parents_eq store_ok_def record_ok_def)

lemma compile_effect:
  assumes "\<not> frozen (store s f)"
  shows "\<exists>s1. compile s f = Returns s1 \<and>
           store s1 = (store s)(f := (store s f)\<lparr>removed := False\<rparr>) \<and>
           set (compiling s1) = insert (path (store s f)) (set (compiling s)) \<and>
           initial s1 = initial s \<and> files s1 = files s \<and> compiled s1 = compiled s"
proof (cases "path (store s f) \<in> set (compiling s)")
  case True
  then show ?thesis using assms by (auto simp: compile_def Let_def resetTimer_def)
next
  case False
  then show ?thesis using assms by (simp add: compile_def Let_def set_add_def)
qed

text \<open>What a round of compiles over records that are not frozen does.\<close>

lemma forEach_compile_effect:
  assumes "\<forall>f \<in> set fs. \<not> frozen (store s f)"
  shows "\<exists>s'. forEach_compile s fs = Returns s' \<and>
           store s' = (\<lambda>g. if g \<in> set fs then (store s g)\<lparr>removed := False\<rparr> else store s g) \<and>
           set (compiling s') = set (compiling s) \<union> (\<lambda>f. path (store s f)) ` set fs \<and>
           initial s' = initial s \<and> files s' = files s \<and> compiled s' = compiled s"
  using assms
proof (induction fs arbitrary: s)
  case Nil
  then show ?case by simp
next
  case (Cons f fs)
  from Cons.prems have nf: "\<not> frozen (store s f)" by simp
  from compile_effect[OF this] obtain s1 where c: "compile s f = Returns s1"
    and st: "store s1 = (store s)(f := (store s f)\<lparr>removed := False\<rparr>)"
    and cs: "set (compiling s1) = insert (path (store s f)) (set (compiling s))"
    and fr: "initial s1 = initial s" "files s1 = files s" "compiled s1 = compiled s"
    by blast
  have "\<forall>g \<in> set fs. \<not> frozen (store s1 g)" using Cons.prems st by simp
  from Cons.IH[OF this] obtain s' where r: "forEach_compile s1 fs = Returns s'"
    and st': "store s' = (\<lambda>g. if g \<in> set fs then (store s1 g)\<lparr>removed := False\<rparr> else store s1 g)"
    and cs': "set (compiling s') = set (compiling s1) \<union> (\<lambda>f. path (store s1 f)) ` set fs"
    and fr': "initial s' = initial s1" "files s' = files s1" "compiled s' = compiled s1"
    by blast
  have p1: "path (store s1 g) = path (store s g)" for g using st by simp
  have "store s' = (\<lambda>g. if g \<in> set (f # fs) then (store s g)\<lparr>removed := False\<rparr> else store s g)"
    unfolding st' st by (rule ext) simp
  moreover have "set (compiling s') = set (compiling s) \<union> (\<lambda>f. path (store s f)) ` set (f # fs)"
    unfolding cs' cs p1 by auto
  ultimately show ?case using c r fr fr' by simp
qed


lemma cascade_effect:
  assumes "store_ok s"
  shows "\<exists>s'. compileDependencyParents s p = Returns s' \<and>
           store s' = (\<lambda>g. if g \<in> set (parents s p) then (store s g)\<lparr>removed := False\<rparr> else store s g) \<and>
           set (compiling s') = set (compiling s) \<union> (\<lambda>f. path (store s f)) ` set (parents s p) \<and>
           initial s' = initial s \<and> files s' = files s \<and> compiled s' = compiled s"
proof -
  have "\<forall>f \<in> set (parents s p). \<not> frozen (store s f)"
    using parents_not_frozen[OF assms] by blast
  from forEach_compile_effect[OF this] obtain s' where
    r: "forEach_compile s (parents s p) = Returns s' \<and>
        store s' = (\<lambda>g. if g \<in> set (parents s p) then (store s g)\<lparr>removed := False\<rparr> else store s g) \<and>
        set (compiling s') = set (compiling s) \<union> (\<lambda>f. path (store s f)) ` set (parents s p) \<and>
        initial s' = initial s \<and> files s' = files s \<and> compiled s' = compiled s"
    by blast
  have "compileDependencyParents s p = forEach_compile s (parents s p)"
    by (cases "parents s p") (simp_all add: compileDependencyParents_def)
  then show ?thesis using r by auto
qed

lemma cascade_is_forEach: "compileDependencyParents s p = forEach_compile s (parents s p)"
  by (cases "parents s p") (simp_all add: compileDependencyParents_def)

lemma pipeline_settled_fields:
  assumes "i < length (running s)" and "running s ! i = (p, f)"
  shows "files (pipeline_settled cfg pf now i out s) = files s"
    and "compiling (pipeline_settled cfg pf now i out s) = removeAll p (compiling s)"
    and "running (pipeline_settled cfg pf now i out s) = drop_nth i (running s)"
    and "initial (pipeline_settled cfg pf now i out s) = initial s"
    and "compiled (pipeline_settled cfg pf now i out s) = compiled s"
    and "store (pipeline_settled cfg pf now i out s) =
           (store s)(f := fst (makeCompiler pf now (moduleWrapper cfg) (store s f) out))"
  using assms
  by (simp_all add: pipeline_settled_def compile_settled_def js_then_def reset_def
      resetTimer_def set_delete_def split: prod.splits settled.splits)

lemma and_then_cong:
  "(\<And>s'. r = Returns s' \<Longrightarrow> g s' = g' s') \<Longrightarrow> and_then r g = and_then r g'"
  by (cases r) simp_all

lemma initial_compile: "initial (state_of (compile s f)) = initial s"
  by (simp add: compile_def Let_def resetTimer_def)

lemma initial_compile_changed: "initial (state_of (compile_changed cfg ig s p cs h)) = initial s"
  by (auto simp: compile_changed_def initial_compile add_file_def Let_def
      split: option.splits sum.splits)

lemma change_source:
  assumes "is_convention cfg ''assets'' p = Inr False"
  shows "change cfg ig s p cs h None =
           and_then (compile_changed cfg ig s p cs h)
             (\<lambda>s2. if initial s then Returns (resetTimer s2)
                   else and_then (compileDependencyParents s2 p) (\<lambda>s3. Returns (resetTimer s3)))"
proof -
  have "and_then (compile_changed cfg ig s p cs h)
          (\<lambda>s2. and_then (if \<not> initial s2 then compileDependencyParents s2 p else Returns s2)
                  (\<lambda>s3. Returns (resetTimer s3))) =
        and_then (compile_changed cfg ig s p cs h)
          (\<lambda>s2. if initial s then Returns (resetTimer s2)
                else and_then (compileDependencyParents s2 p) (\<lambda>s3. Returns (resetTimer s3)))"
  proof (rule and_then_cong)
    fix s' assume "compile_changed cfg ig s p cs h = Returns s'"
    then have "initial s' = initial s" using initial_compile_changed[of cfg ig s p cs h] by simp
    then show "and_then (if \<not> initial s' then compileDependencyParents s' p else Returns s')
                  (\<lambda>s3. Returns (resetTimer s3)) =
               (if initial s then Returns (resetTimer s')
                else and_then (compileDependencyParents s' p) (\<lambda>s3. Returns (resetTimer s3)))"
      by simp
  qed
  then show ?thesis using assms by (simp add: change_def)
qed

lemma unlink_ignored_source:
  assumes "is_convention cfg ''assets'' p = Inr False"
  shows "unlink cfg True s p =
           and_then (compileDependencyParents s p) (\<lambda>s'. Returns (resetTimer s'))"
  using assms by (simp add: unlink_def)

lemma js_array_indexOf_from_none: "js_array_indexOf_from (\<lambda>a. False) xs i = - 1"
  by (induction xs arbitrary: i) simp_all

lemma js_splice_last: "js_splice xs (- 1) 1 = butlast xs"
  by (cases xs rule: rev_cases) (simp_all add: js_splice_def js_rel_index_def Let_def)

lemma unlink_asset_drops_last:
  assumes "is_convention cfg ''assets'' p = Inr True"
  shows "unlink cfg False s p = Returns (resetTimer (s\<lparr>assets := butlast (assets s)\<rparr>))"
  using assms
  by (simp add: unlink_def js_array_indexOf_def js_array_indexOf_from_none js_splice_last)

section \<open>The example states\<close>

lemma demo_ignored: "isIgnored (Suc 0) demo_config ''app/a.js'' RFalsy = Some False"
  by (simp add: demo_config_def startsWith_def js_lastIndexOf_0_def js_array_indexOf_def)

lemma demo_is_assets [simp]: "is_convention demo_config ''assets'' ''app/a.js'' = Inr False"
  by (simp add: is_convention_def demo_config_def startsWith_def js_lastIndexOf_0_def)

lemma demo_is_vendor [simp]: "is_convention demo_config ''vendor'' p = Inr False"
  by (simp add: is_convention_def demo_config_def)

lemma demo_compiling_fields:
  "running demo_compiling = [(''app/a.js'', 0)]"
  "compiling demo_compiling = [''app/a.js'']"
  "marking demo_compiling = []"
  "files demo_compiling = [0]"
  "emitted demo_compiling = []"
  "resets demo_compiling = 1"
  "path (store demo_compiling 0) = ''app/a.js''"
  by (simp_all add: demo_compiling_def change_def compile_changed_def find_file_def FileList_def
      add_file_def Let_def compile_def SourceFile_def set_add_def resetTimer_def
      demo_config_def[THEN arg_cong[of _ _ isNpmJSON]])

lemma reachable_demo_compiling: "reachable demo_config demo_compiling"
proof -
  have "on_change (Suc 0) demo_config FileList ''app/a.js'' [Some ''javascript''] False None =
      Some (change demo_config False FileList ''app/a.js'' [Some ''javascript''] False None)"
    by (simp only: on_change_def demo_ignored option.case)
  from reachable.changed[OF reachable.constructed this] show ?thesis
    by (simp only: demo_compiling_def)
qed

lemma demo_removed_fields:
  "running demo_removed = [(''app/a.js'', 0)]"
  "compiling demo_removed = [''app/a.js'']"
  "path (store demo_removed 0) = ''app/a.js''"
  "removed (store demo_removed 0)"
  "\<not> frozen (store demo_removed 0)"
  by (simp_all add: demo_removed_def unlink_def find_file_def set_removed_def resetTimer_def
      demo_compiling_fields)
    (simp_all add: demo_compiling_def change_def compile_changed_def find_file_def FileList_def
      add_file_def Let_def compile_def SourceFile_def set_add_def resetTimer_def
      demo_config_def[THEN arg_cong[of _ _ isNpmJSON]])

lemma reachable_demo_removed: "reachable demo_config demo_removed"
proof -
  have "on_unlink (Suc 0) demo_config demo_compiling ''app/a.js'' =
      Some (unlink demo_config False demo_compiling ''app/a.js'')"
    by (simp only: on_unlink_def demo_ignored option.case)
  from reachable.unlinked[OF reachable_demo_compiling this] show ?thesis
    by (simp only: demo_removed_def)
qed

lemma demo_compiling_record:
  "store demo_compiling 0 = (SourceFile ''app/a.js'' [Some ''javascript''] False False False)"
  "nodes demo_compiling = []"
  "initial demo_compiling"
  "compiled demo_compiling = (\<lambda>_. False)"
  by (simp_all add: demo_compiling_def change_def compile_changed_def find_file_def FileList_def
      add_file_def Let_def compile_def SourceFile_def set_add_def resetTimer_def
      demo_config_def[THEN arg_cong[of _ _ isNpmJSON]])

lemma demo_makeCompiler:
  "fst (makeCompiler demo_platform 7 (moduleWrapper demo_config)
      (SourceFile ''app/a.js'' [Some ''javascript''] False False False)
      (Resolved (Some demo_result))) =
   (SourceFile ''app/a.js'' [Some ''javascript''] False False False)
     \<lparr>error := None, dependencies := Some [''app/_vars.js''],
      source := ''x = 1'', compilationTime := Some 7, data := Some ''var x=1;''\<rparr>"
  by (simp add: makeCompiler_def updateCache_def SourceFile_def Let_def demo_result_def
      split: sum.splits returned.splits)

lemma demo_settled_fields:
  "files demo_settled = [0]"
  "compiling demo_settled = []"
  "running demo_settled = []"
  "initial demo_settled"
  "compiled demo_settled = (\<lambda>_. False)"
  "store demo_settled 0 =
     (SourceFile ''app/a.js'' [Some ''javascript''] False False False)
       \<lparr>error := None, dependencies := Some [''app/_vars.js''],
        source := ''x = 1'', compilationTime := Some 7, data := Some ''var x=1;''\<rparr>"
  unfolding demo_settled_def
  by (simp_all add: pipeline_settled_fields[where p = "''app/a.js''" and f = 0]
      demo_compiling_fields demo_compiling_record demo_makeCompiler)

lemma demo_settled_record:
  "dependencies (store demo_settled 0) = Some [''app/_vars.js'']"
  "path (store demo_settled 0) = ''app/a.js''"
  "\<not> disposed (store demo_settled 0)"
  "\<not> frozen (store demo_settled 0)"
  by (simp_all add: demo_settled_fields SourceFile_def Let_def)

lemma reachable_demo_settled: "reachable demo_config demo_settled"
  unfolding demo_settled_def by (rule reachable.settled[OF reachable_demo_compiling])

lemma demo_parents: "parents demo_settled ''app/_vars.js'' = [0]"
  by (simp add: parents_def demo_settled_fields(1,5) demo_settled_record js_array_indexOf_def)

lemma demo_vars_ignored: "isIgnored (Suc 0) demo_config ''app/_vars.js'' RFalsy = Some True"
  by (simp add: demo_config_def startsWith_def js_lastIndexOf_0_def js_array_indexOf_def)

lemma demo_vars_not_asset: "is_convention demo_config ''assets'' ''app/_vars.js'' = Inr False"
  by (simp add: is_convention_def demo_config_def startsWith_def js_lastIndexOf_0_def)

lemma demo_asset_convention:
  "is_convention demo_config ''assets'' ''app/assets/a.png'' = Inr True"
  "is_convention demo_config ''assets'' ''app/assets/b.png'' = Inr True"
  by (simp_all add: is_convention_def demo_config_def startsWith_def js_lastIndexOf_0_def)

lemma demo_assets_list:
  "assets demo_assets =
     [\<lparr>apath = ''app/assets/a.png'', aerror = None\<rparr>, \<lparr>apath = ''app/assets/b.png'', aerror = None\<rparr>]"
  by (simp add: demo_assets_def change_def demo_asset_convention findAsset_def FileList_def
      addAsset_def Let_def copy_def)

lemma reachable_demo_assets: "reachable demo_config demo_assets"
proof -
  have i: "isIgnored (Suc 0) demo_config p RFalsy = Some False"
    if "p = ''app/assets/a.png'' \<or> p = ''app/assets/b.png''" for p
    using that
    by (auto simp: demo_config_def startsWith_def js_lastIndexOf_0_def js_array_indexOf_def)
  have 1: "on_change (Suc 0) demo_config FileList ''app/assets/a.png'' [] False None =
      Some (change demo_config False FileList ''app/assets/a.png'' [] False None)"
    by (simp only: on_change_def i option.case simp_thms)
  have 2: "on_change (Suc 0) demo_config s ''app/assets/b.png'' [] False None =
      Some (change demo_config False s ''app/assets/b.png'' [] False None)" for s
    by (simp only: on_change_def i option.case simp_thms)
  from reachable.changed[OF reachable.changed[OF reachable.constructed 1] 2]
  show ?thesis by (simp only: demo_assets_def)
qed

lemma demo_settled_allocated: "allocated demo_settled = 1"
  unfolding demo_settled_def
  by (simp add: pipeline_settled_def compile_settled_fields demo_compiling_fields split: prod.splits)
    (simp add: demo_compiling_def change_def compile_changed_def find_file_def FileList_def
      add_file_def Let_def compile_def SourceFile_def set_add_def resetTimer_def
      demo_config_def[THEN arg_cong[of _ _ isNpmJSON]])

lemma reachable_demo_disposed: "reachable demo_config demo_disposed"
  unfolding demo_disposed_def
  by (rule reachable.disposal[OF reachable_demo_settled]) (simp add: demo_settled_allocated)

lemma demo_disposed_fields:
  "files demo_disposed = [0]"
  "disposed (store demo_disposed 0)"
  "dependencies (store demo_disposed 0) = Some []"
  by (simp_all add: demo_disposed_def dispose_file_def dispose_def demo_settled_fields
      SourceFile_def Let_def)

lemma reachable_demo_later: "reachable demo_config demo_later"
  unfolding demo_later_def by (rule reachable.first_build[OF reachable_demo_settled])

lemma parents_initial: "parents (s\<lparr>initial := b\<rparr>) p = parents s p"
  by (simp add: parents_def cong: option.case_cong)

lemma demo_later_fields:
  "\<not> initial demo_later"
  "parents demo_later ''app/_vars.js'' = [0]"
  "compiling demo_later = []"
  "path (store demo_later 0) = ''app/a.js''"
  "\<not> frozen (store demo_later 0)"
  by (simp_all add: demo_later_def parents_initial demo_parents demo_settled_fields(2)
      demo_settled_record)

section \<open>One compile per path\<close>

lemma count_distinct_fst:
  "distinct (map fst xs) \<Longrightarrow>
     length (filter (\<lambda>t. fst t = p) xs) = (if p \<in> fst ` set xs then 1 else 0)"
proof (induction xs)
  case Nil then show ?case by simp
next
  case (Cons x xs)
  then show ?case by (cases "fst x = p") (auto simp: image_iff)
qed

lemma compile_coalesced:
  "path (store s f) \<in> set (compiling s) \<Longrightarrow>
     running (state_of (compile s f)) = running s \<and>
     compiling (state_of (compile s f)) = compiling s"
  by (simp add: compile_def Let_def resetTimer_def)

text \<open>
  Claim C1. In every reachable state, compile called on a record whose path is in the
  compiling set starts no compile operation and leaves the compiling set as it is; the
  number of compile operations under way for a path is one if the path is in the
  compiling set and none otherwise, so never more than one; each of them runs the
  pipeline on the path it is counted under; and the compiling set holds no path twice.
\<close>

theorem compile_at_most_once_per_path:
  assumes "reachable cfg s"
  shows "(\<forall>f. path (store s f) \<in> set (compiling s) \<longrightarrow>
            running (state_of (compile s f)) = running s \<and>
            compiling (state_of (compile s f)) = compiling s) \<and>
         (\<forall>p. in_flight s p = (if p \<in> set (compiling s) then 1 else 0)) \<and>
         (\<forall>t \<in> set (running s). c_path (store s (snd t)) = fst t) \<and>
         distinct (compiling s)"
proof -
  from assms have w: "wf s" by (rule reachable_wf)
  then have d: "distinct (map fst (running s))" and dc: "distinct (compiling s)"
    and eq: "set (compiling s) = fst ` set (running s)"
    by (simp_all add: wf_def tasks_ok_def)
  have "in_flight s p = (if p \<in> set (compiling s) then 1 else 0)" for p
    unfolding in_flight_def eq by (rule count_distinct_fst[OF d])
  moreover have "\<forall>t \<in> set (running s). c_path (store s (snd t)) = fst t"
    using w by (simp add: wf_def runs_ok_def)
  ultimately show ?thesis using dc compile_coalesced by blast
qed

theorem compile_at_most_once_per_path_witness:
  "reachable demo_config demo_compiling \<and>
   path (store demo_compiling 0) \<in> set (compiling demo_compiling) \<and>
   running (state_of (compile demo_compiling 0)) = [(''app/a.js'', 0)] \<and>
   compiling (state_of (compile demo_compiling 0)) = [''app/a.js''] \<and>
   in_flight demo_compiling ''app/a.js'' = 1 \<and>
   c_path (store demo_compiling 0) = ''app/a.js''"
proof -
  note t = compile_at_most_once_per_path[OF reachable_demo_compiling]
  have m: "path (store demo_compiling 0) \<in> set (compiling demo_compiling)"
    by (simp add: demo_compiling_fields)
  from t m have "running (state_of (compile demo_compiling 0)) = running demo_compiling \<and>
      compiling (state_of (compile demo_compiling 0)) = compiling demo_compiling" by blast
  moreover from t have "in_flight demo_compiling ''app/a.js'' =
      (if ''app/a.js'' \<in> set (compiling demo_compiling) then 1 else 0)" by blast
  moreover from t have "\<forall>t \<in> set (running demo_compiling). c_path (store demo_compiling (snd t)) = fst t"
    by blast
  ultimately show ?thesis using reachable_demo_compiling m
    by (simp add: demo_compiling_fields)
qed

section \<open>What a coalesced compile changes\<close>

text \<open>
  Claim C2 says that compile on a record whose path is in the compiling set leaves the
  record's \<open>removed\<close> flag alone. It does not: \<open>file.removed = false\<close> is the second
  statement of \<open>compile\<close>, before the test. After a change and an unlink of \<open>app/a.js\<close>
  the record is marked removed while its path compiles, and compile clears the mark.
\<close>

theorem compile_clears_removed_counterexample:
  "path (store demo_removed 0) \<in> set (compiling demo_removed) \<and>
   removed (store demo_removed 0) \<and>
   \<not> removed (store (state_of (compile demo_removed 0)) 0)"
  by (simp add: demo_removed_fields compile_def Let_def resetTimer_def)

text \<open>
  Claim C2, amended. For a record that is not frozen: if its path is in the compiling
  set, compile clears \<open>removed\<close> and resets the timer and does nothing else (the compiling
  set, the compiled marks and the running compile operations stay as they are); and in
  either branch the store changes in that record's \<open>removed\<close> flag only, which is cleared.
\<close>

theorem compile_while_compiling:
  assumes "\<not> frozen (store s f)"
  shows "(path (store s f) \<in> set (compiling s) \<longrightarrow>
            compile s f =
              Returns (resetTimer (s\<lparr>store := (store s)(f := (store s f)\<lparr>removed := False\<rparr>)\<rparr>)) \<and>
            compiling (state_of (compile s f)) = compiling s \<and>
            compiled (state_of (compile s f)) = compiled s \<and>
            running (state_of (compile s f)) = running s \<and>
            resets (state_of (compile s f)) = Suc (resets s)) \<and>
         store (state_of (compile s f)) = (store s)(f := (store s f)\<lparr>removed := False\<rparr>)"
  using assms by (simp add: compile_def Let_def resetTimer_def)

theorem compile_while_compiling_witness:
  "\<not> frozen (store demo_removed 0) \<and>
   path (store demo_removed 0) \<in> set (compiling demo_removed) \<and>
   compile demo_removed 0 =
     Returns (resetTimer (demo_removed\<lparr>store := (store demo_removed)(0 := (store demo_removed 0)\<lparr>removed := False\<rparr>)\<rparr>)) \<and>
   \<not> removed (store (state_of (compile demo_removed 0)) 0)"
  using compile_while_compiling[of demo_removed 0]
  by (simp add: demo_removed_fields resetTimer_def)

section \<open>Unlinking an asset\<close>

text \<open>
  Claim C3 says that unlinking an asset removes the asset with that path and keeps the
  others. The handler calls \<open>this.assets.indexOf(path)\<close> on a list of \<open>Asset\<close> objects; a
  string is never strictly equal to an object, the index is \<open>-1\<close>, and \<open>splice(-1, 1)\<close>
  removes the last asset whatever its path (\<open>unlink_asset_drops_last\<close>). With the assets
  \<open>a.png\<close> and \<open>b.png\<close> known, an unlink of \<open>a.png\<close> leaves \<open>a.png\<close> in the list.
\<close>

theorem unlink_asset_removes_the_last_asset:
  "reachable demo_config demo_assets \<and>
   on_unlink (Suc 0) demo_config demo_assets ''app/assets/a.png'' =
     Some (unlink demo_config False demo_assets ''app/assets/a.png'') \<and>
   map apath (assets demo_assets) = [''app/assets/a.png'', ''app/assets/b.png''] \<and>
   map apath (assets (state_of (unlink demo_config False demo_assets ''app/assets/a.png''))) =
     [''app/assets/a.png'']"
proof -
  have "isIgnored (Suc 0) demo_config ''app/assets/a.png'' RFalsy = Some False"
    by (simp add: demo_config_def startsWith_def js_lastIndexOf_0_def js_array_indexOf_def)
  then show ?thesis
    using reachable_demo_assets
    by (simp add: on_unlink_def unlink_asset_drops_last[OF demo_asset_convention(1)]
        demo_assets_list resetTimer_def)
qed

section \<open>A null result and a rejection\<close>

text \<open>How the compile operation of a record settles: it rejects, with the error that
  \<open>updateMap\<close> threw if it threw one, and with a \<open>TypeError\<close> otherwise.\<close>

lemma makeCompiler_rejects:
  "\<exists>e. snd (snd (makeCompiler pf now w cache out)) = Rejected (Some e)"
  by (auto simp: makeCompiler_def Let_def split: sum.splits prod.splits returned.splits)

lemma makeCompiler_rejects_with_thrown:
  assumes "\<not> frozen cache"
    and "updateMap_node pf (replaceBackSlashes (c_path cache)) (r_compiled res)
           (makeWrapper w (c_path cache) (c_isWrapped cache) (c_isntModule cache) (r_compiled res))
           (r_sourceMap res) = Inl e"
  shows "snd (snd (makeCompiler pf now w cache (Resolved (Some res)))) = Rejected (Some e)"
  using assms by (simp add: makeCompiler_def updateCache_def Let_def)

text \<open>
  Claim C4 says that a null pipeline result clears both \<open>data\<close> and \<open>node\<close>, and that a
  rejection stores the error and keeps \<open>data\<close>. The branch of \<open>updateCache\<close> for a null
  result assigns \<open>error\<close>, \<open>data\<close> and \<open>compilationTime\<close> and returns; a record that had a
  node still has it. And the rejection handler hands the reason to \<open>updateCache\<close>, whose
  test \<open>error != null\<close> sends a reason that is \<open>null\<close> or \<open>undefined\<close> down that same
  branch: \<open>data\<close> is cleared and no error is stored.
\<close>

theorem null_result_keeps_node_counterexample:
  "node demo_with_node = Some (identityNode ''var x=1;'' ''app/a.js'') \<and>
   updateCache demo_platform 7 ''app/a.js'' demo_with_node None None
       (makeWrapper (moduleWrapper demo_config) ''app/a.js'' True False) =
     Inr (demo_with_node\<lparr>error := None, data := None, compilationTime := Some 7\<rparr>,
          ReturnsCache, None) \<and>
   data (fst (makeCompiler demo_platform 7 (moduleWrapper demo_config) demo_with_node
                (Resolved None))) = None \<and>
   node (fst (makeCompiler demo_platform 7 (moduleWrapper demo_config) demo_with_node
                (Resolved None))) = Some (identityNode ''var x=1;'' ''app/a.js'') \<and>
   data demo_with_node = Some ''var x=1;'' \<and>
   data (fst (makeCompiler demo_platform 7 (moduleWrapper demo_config) demo_with_node
                (Rejected None))) = None \<and>
   error (fst (makeCompiler demo_platform 7 (moduleWrapper demo_config) demo_with_node
                (Rejected None))) = None"
  by (simp add: updateCache_def makeCompiler_def demo_with_node_def SourceFile_def Let_def)

text \<open>
  Claim C4, amended. For a record that is not frozen: a null pipeline result sets \<open>error\<close>
  and \<open>data\<close> to null and \<open>compilationTime\<close> to the current time and leaves every other
  field, \<open>node\<close> among them, as it was; a rejection whose reason is not \<open>null\<close> or
  \<open>undefined\<close> stores the reason in \<open>error\<close> and leaves every other field, \<open>data\<close> and
  \<open>node\<close> among them, as it was; and a rejection whose reason is \<open>null\<close> or \<open>undefined\<close>
  changes the record as a null result does.
\<close>

theorem null_result_and_rejection:
  assumes "\<not> frozen cache"
  shows "updateCache pf now p cache None None wrap =
           Inr (cache\<lparr>error := None, data := None, compilationTime := Some now\<rparr>,
                ReturnsCache, None) \<and>
         updateCache pf now p cache (Some e) result wrap =
           Inr (cache\<lparr>error := Some e\<rparr>, ReturnsCache, None) \<and>
         fst (makeCompiler pf now w cache (Resolved None)) =
           cache\<lparr>error := None, data := None, compilationTime := Some now\<rparr> \<and>
         node (fst (makeCompiler pf now w cache (Resolved None))) = node cache \<and>
         fst (makeCompiler pf now w cache (Rejected (Some e))) = cache\<lparr>error := Some e\<rparr> \<and>
         data (fst (makeCompiler pf now w cache (Rejected (Some e)))) = data cache \<and>
         node (fst (makeCompiler pf now w cache (Rejected (Some e)))) = node cache \<and>
         fst (makeCompiler pf now w cache (Rejected None)) =
           cache\<lparr>error := None, data := None, compilationTime := Some now\<rparr> \<and>
         node (fst (makeCompiler pf now w cache (Rejected None))) = node cache"
  using assms by (simp add: updateCache_def makeCompiler_def Let_def)

theorem null_result_and_rejection_witness:
  "\<not> frozen demo_with_node \<and>
   data (fst (makeCompiler demo_platform 7 (moduleWrapper demo_config) demo_with_node
                (Resolved None))) = None \<and>
   error (fst (makeCompiler demo_platform 7 (moduleWrapper demo_config) demo_with_node
                (Resolved None))) = None \<and>
   node (fst (makeCompiler demo_platform 7 (moduleWrapper demo_config) demo_with_node
                (Resolved None))) = Some (identityNode ''var x=1;'' ''app/a.js'') \<and>
   error (fst (makeCompiler demo_platform 7 (moduleWrapper demo_config) demo_with_node
                (Rejected (Some (Error ''syntax''))))) = Some (Error ''syntax'') \<and>
   data (fst (makeCompiler demo_platform 7 (moduleWrapper demo_config) demo_with_node
                (Rejected (Some (Error ''syntax''))))) = Some ''var x=1;'' \<and>
   node (fst (makeCompiler demo_platform 7 (moduleWrapper demo_config) demo_with_node
                (Rejected (Some (Error ''syntax''))))) = Some (identityNode ''var x=1;'' ''app/a.js'') \<and>
   data (fst (makeCompiler demo_platform 7 (moduleWrapper demo_config) demo_with_node
                (Rejected None))) = None \<and>
   node (fst (makeCompiler demo_platform 7 (moduleWrapper demo_config) demo_with_node
                (Rejected None))) = Some (identityNode ''var x=1;'' ''app/a.js'')"
  using null_result_and_rejection[where cache = demo_with_node and pf = demo_platform
      and now = 7 and e = "Error ''syntax''" and w = "moduleWrapper demo_config"]
  by (simp add: demo_with_node_def SourceFile_def Let_def)

section \<open>The sources of a supplied map\<close>

lemma addSources_contents:
  "addSources rd ps n = Inr n' \<Longrightarrow>
     sourceContents n' = (\<lambda>q. if q \<in> set ps then rd q else sourceContents n q) \<and>
     chunks n' = chunks n \<and> (\<forall>q \<in> set ps. rd q \<noteq> None)"
proof (induction ps arbitrary: n)
  case Nil
  then show ?case by simp
next
  case (Cons a ps)
  then obtain c where c: "rd a = Some c" and r: "addSources rd ps (setSourceContent a c n) = Inr n'"
    by (auto split: option.splits)
  from Cons.IH[OF r] show ?case using c by (auto simp: setSourceContent_def)
qed

text \<open>With a source map in object form, every listed source gets the content read for it.\<close>

lemma updateMap_object_attaches:
  assumes "updateMap pf p c wr (Some (MapObject m)) = Inr n"
  shows "\<forall>src \<in> set (fetch_list pf (Some (MapObject m))).
           readFile pf src \<noteq> None \<and> sourceContents n src = readFile pf src"
  using assms
  by (auto simp: updateMap_def updateMap_node_def Let_def dest!: addSources_contents
      split: sum.splits prod.splits if_splits)

text \<open>With a source map in string form nothing is read.\<close>

lemma fetch_list_string: "fetch_list pf (Some (MapString t)) = []"
  by (simp add: fetch_list_def)

text \<open>
  Claim C5 says that the contents of all sources listed in the pipeline's source map are
  attached to the node, for a map in string form as for one in object form. The list of
  paths to read is \<open>sourceMap.sources\<close>, taken from the argument and not from the parsed
  mapping; a string has no such property, so for a map in string form nothing is read
  (\<open>fetch_list_string\<close>), while the same map as an object has the content of each of its
  sources attached (\<open>updateMap_object_attaches\<close>). Here both forms are run on one map
  listing \<open>a.coffee\<close> and \<open>b.coffee\<close>, with both files readable.
\<close>

theorem string_source_map_sources_not_attached:
  "json_parse demo_platform (strip_sMapRe demo_map_text) = Some demo_map \<and>
   readFile demo_platform ''a.coffee'' = Some ''content'' \<and>
   readFile demo_platform ''b.coffee'' = Some ''content'' \<and>
   (case updateMap demo_platform ''app/a.js'' ''var x=1;'' (WString ''var x=1;'')
           (Some (MapString demo_map_text)) of
      Inl e \<Rightarrow> False
    | Inr n \<Rightarrow> sourceContents n ''a.coffee'' = None \<and> sourceContents n ''b.coffee'' = None \<and>
               sourceContents n ''app/a.js'' = Some ''var x=1;'') \<and>
   (case updateMap demo_platform ''app/a.js'' ''var x=1;'' (WString ''var x=1;'')
           (Some (MapObject demo_map)) of
      Inl e \<Rightarrow> False
    | Inr n \<Rightarrow> sourceContents n ''a.coffee'' = Some ''content'' \<and>
               sourceContents n ''b.coffee'' = Some ''content'')"
  by (simp add: demo_platform_def demo_map_def demo_map_text_def updateMap_def updateMap_node_def
      wrapper_parts_def
      js_indexOf_def js_slice_def js_rel_index_def truthy_map_def truthy_str_def
      parsed_mapping_def windows_sources_def strip_sMapRe_def fromStringWithSourceMap_def
      fetch_list_def setSourceContent_def Let_def)


section \<open>A wrapper that returns a string\<close>

lemma js_slice_take: "0 \<le> k \<Longrightarrow> js_slice w 0 (Some k) = take (nat k) w"
  by (simp add: js_slice_def js_rel_index_def Let_def min_def)

lemma js_slice_drop: "0 \<le> k \<Longrightarrow> js_slice w k None = drop (nat k) w"
  by (simp add: js_slice_def js_rel_index_def Let_def min_def)

lemma js_slice_butlast: "js_slice w 0 (Some (- 1)) = butlast w"
proof -
  have "nat (max (int (length w) - 1) 0) = length w - 1" by (cases w) simp_all
  then show ?thesis by (simp add: js_slice_def js_rel_index_def Let_def butlast_conv_take)
qed

text \<open>The rendered text for a wrapper that returned a string, by where the compiled text
  is found in it.\<close>

lemma render_string_wrapper:
  assumes "updateMap pf p c (WString w) sm = Inr n"
  shows "render n =
           (if 0 < js_indexOf w c then w
            else if js_indexOf w c = 0 then w @ drop (length c) w
            else butlast w @ w @ drop (length c - 1) w)"
proof -
  let ?i = "js_indexOf w c"
  note r = render_updateMap_string[OF assms]
  consider (pos) "0 < ?i" | (zero) "?i = 0" | (none) "?i = - 1"
    using js_indexOf_ge[of w c] by linarith
  then show ?thesis
  proof cases
    case pos
    from js_indexOf_pos[OF pos] have k: "nat ?i \<le> length w"
      and t: "take (length c) (drop (nat ?i) w) = c" by simp_all
    have "drop (nat (?i + int (length c))) w = drop (length c) (drop (nat ?i) w)"
      using pos by (simp add: nat_add_distrib add.commute)
    then have "take (nat ?i) w @ c @ drop (nat (?i + int (length c))) w = w"
      using t by (metis append_take_drop_id)
    then show ?thesis using r pos by (simp add: js_slice_take js_slice_drop)
  next
    case zero
    then show ?thesis using r by (simp add: js_slice_take js_slice_drop)
  next
    case none
    then have "c \<noteq> []" using js_indexOf_zero_iff[of w c] by auto
    then have "nat (int (length c) - 1) = length c - 1" "0 \<le> int (length c) - 1"
      by (simp_all add: Suc_leI)
    then show ?thesis using r none by (simp add: js_slice_butlast js_slice_drop)
  qed
qed

text \<open>
  Claim C10. Let the wrapper return a string \<open>w\<close> longer than the compiled text, and let
  \<open>updateMap\<close> produce a node. If the compiled text is found at index 0, the prefix is
  empty, the wrapper content is \<open>w\<close> itself and the suffix is the non-empty rest of \<open>w\<close>
  after the compiled text, so the node renders \<open>w\<close> followed by that rest once more. If it
  is found at a positive index, the parts are the text before it, the compiled text and
  the text after it, and the node renders \<open>w\<close>. And the node renders \<open>w\<close> only in that
  second case.
\<close>

theorem string_wrapper_at_index_zero_doubles_suffix:
  assumes "updateMap pf p c (WString w) sm = Inr n" and "length c < length w"
  shows "(js_indexOf w c = 0 \<longrightarrow>
            wrapper_parts (WString w) c = Inr (Some [], Some (drop (length c) w), w) \<and>
            drop (length c) w \<noteq> [] \<and>
            render n = w @ drop (length c) w) \<and>
         (0 < js_indexOf w c \<longrightarrow>
            wrapper_parts (WString w) c =
              Inr (Some (take (nat (js_indexOf w c)) w),
                   Some (drop (nat (js_indexOf w c) + length c) w), c) \<and>
            take (nat (js_indexOf w c)) w @ c @ drop (nat (js_indexOf w c) + length c) w = w \<and>
            render n = w) \<and>
         (render n = w \<longrightarrow> 0 < js_indexOf w c)"
proof (intro conjI impI)
  assume z: "js_indexOf w c = 0"
  show "wrapper_parts (WString w) c = Inr (Some [], Some (drop (length c) w), w)"
    using z by (simp add: parts_string js_slice_take js_slice_drop)
  show "drop (length c) w \<noteq> []" using assms(2) by simp
  show "render n = w @ drop (length c) w" using render_string_wrapper[OF assms(1)] z by simp
next
  assume pos: "0 < js_indexOf w c"
  from js_indexOf_pos[OF pos] have t: "take (length c) (drop (nat (js_indexOf w c)) w) = c"
    by simp
  have n: "nat (js_indexOf w c + int (length c)) = nat (js_indexOf w c) + length c"
    using pos by (simp add: nat_add_distrib)
  show "wrapper_parts (WString w) c =
              Inr (Some (take (nat (js_indexOf w c)) w),
                   Some (drop (nat (js_indexOf w c) + length c) w), c)"
    using pos n by (simp add: parts_string js_slice_take js_slice_drop)
  have "drop (nat (js_indexOf w c) + length c) w = drop (length c) (drop (nat (js_indexOf w c)) w)"
    by (simp add: add.commute)
  then show "take (nat (js_indexOf w c)) w @ c @ drop (nat (js_indexOf w c) + length c) w = w"
    using t by (metis append_take_drop_id)
  show "render n = w" using render_string_wrapper[OF assms(1)] pos by simp
next
  assume eq: "render n = w"
  show "0 < js_indexOf w c"
  proof (rule ccontr)
    assume "\<not> 0 < js_indexOf w c"
    then consider (zero) "js_indexOf w c = 0" | (none) "js_indexOf w c = - 1"
      using js_indexOf_ge[of w c] by linarith
    then show False
    proof cases
      case zero
      then have "render n = w @ drop (length c) w" using render_string_wrapper[OF assms(1)] by simp
      then have "length (render n) > length w" using assms(2) by simp
      then show False using eq by simp
    next
      case none
      then have "render n = butlast w @ w @ drop (length c - 1) w"
        using render_string_wrapper[OF assms(1)] by simp
      moreover have "c \<noteq> []" using none js_indexOf_zero_iff[of w c] by auto
      ultimately have "length (render n) > length w" using assms(2)
        by (cases c) (simp_all)
      then show False using eq by simp
    qed
  qed
qed

theorem string_wrapper_at_index_zero_doubles_suffix_witness:
  "length ''var x=1;'' < length ''var x=1;})();'' \<and>
   js_indexOf ''var x=1;})();'' ''var x=1;'' = 0 \<and>
   map_sum id render (updateMap demo_platform ''app/a.js'' ''var x=1;'' (WString ''var x=1;})();'') None) =
     Inr ''var x=1;})();})();'' \<and>
   length ''var x=1;'' < length ''(function(){var x=1;})();'' \<and>
   0 < js_indexOf ''(function(){var x=1;})();'' ''var x=1;'' \<and>
   map_sum id render
     (updateMap demo_platform ''app/a.js'' ''var x=1;'' (WString ''(function(){var x=1;})();'') None) =
     Inr ''(function(){var x=1;})();''"
proof -
  obtain n where n: "updateMap demo_platform ''app/a.js'' ''var x=1;'' (WString ''var x=1;})();'') None = Inr n"
    by (simp add: updateMap_def updateMap_node_def wrapper_parts_def truthy_map_def fetch_list_def
        Let_def)
  have z: "js_indexOf ''var x=1;})();'' ''var x=1;'' = 0" by (simp add: js_indexOf_def)
  from string_wrapper_at_index_zero_doubles_suffix[OF n] z
  have 1: "render n = ''var x=1;})();'' @ drop (length ''var x=1;'') ''var x=1;})();''" by simp
  obtain m where m: "updateMap demo_platform ''app/a.js'' ''var x=1;''
      (WString ''(function(){var x=1;})();'') None = Inr m"
    by (simp add: updateMap_def updateMap_node_def wrapper_parts_def truthy_map_def fetch_list_def
        Let_def)
  have p: "0 < js_indexOf ''(function(){var x=1;})();'' ''var x=1;''" by (simp add: js_indexOf_def)
  from string_wrapper_at_index_zero_doubles_suffix[OF m] p
  have 2: "render m = ''(function(){var x=1;})();''" by simp
  show ?thesis using n z 1 m p 2 by simp
qed

section \<open>The order of the checks in \<open>isIgnored\<close>\<close>

lemma js_some_returns:
  "(\<forall>x \<in> set xs. f x \<noteq> None) \<Longrightarrow> js_some f xs = Some (\<exists>x \<in> set xs. f x = Some True)"
  by (induction xs) (auto split: option.splits bool.splits)

lemma total_not_falsy: "total_rule r \<Longrightarrow> \<not> falsy r"
  by (cases r) auto

lemma depth_element: "t \<in> set ts \<Longrightarrow> rule_depth t \<le> foldr max (map rule_depth ts) 0"
  by (induction ts) auto

lemma isIgnored_total_returns:
  "total_rule r \<Longrightarrow> rule_depth r < n \<Longrightarrow> isIgnored n cfg p r \<noteq> None"
proof (induction n arbitrary: r)
  case 0
  then show ?case by simp
next
  case (Suc n)
  show ?case
  proof (cases r)
    case (RArray ts)
    have "\<forall>t \<in> set ts. isIgnored n cfg p t \<noteq> None"
    proof
      fix t assume t: "t \<in> set ts"
      then have "total_rule t" using Suc.prems(1) RArray by (simp add: list_all_iff)
      moreover have "rule_depth t < n" using depth_element[OF t] Suc.prems(2) RArray by simp
      ultimately show "isIgnored n cfg p t \<noteq> None" by (rule Suc.IH)
    qed
    then have "js_some (\<lambda>t. isIgnored n cfg p t) ts \<noteq> None" by (simp add: js_some_returns)
    then show ?thesis using RArray by (auto simp: Let_def)
  qed (use Suc.prems in \<open>auto simp: Let_def\<close>)
qed

lemma isIgnored_falsy_is_default:
  "falsy r \<Longrightarrow> \<not> falsy (conventions cfg ''ignored'') \<Longrightarrow>
     isIgnored n cfg p r = isIgnored n cfg p (conventions cfg ''ignored'')"
  by (cases n) (simp_all add: Let_def)

lemma isIgnored_falsy_default_returns:
  "falsy r \<Longrightarrow> falsy (conventions cfg ''ignored'') \<Longrightarrow> isIgnored (Suc n) cfg p r \<noteq> None"
  by (cases "conventions cfg ''ignored''") (auto simp: Let_def)

lemma isIgnored_returns:
  assumes d: "falsy (conventions cfg ''ignored'') \<or> total_rule (conventions cfg ''ignored'')"
    and r: "falsy r \<or> total_rule r"
    and n: "rule_depth r < n" "rule_depth (conventions cfg ''ignored'') < n"
  shows "isIgnored n cfg p r \<noteq> None"
proof (cases "falsy r")
  case False
  then show ?thesis using r n(1) isIgnored_total_returns by blast
next
  case True
  show ?thesis
  proof (cases "falsy (conventions cfg ''ignored'')")
    case False
    then have "total_rule (conventions cfg ''ignored'')" using d by blast
    then show ?thesis
      using isIgnored_falsy_is_default[OF True False] isIgnored_total_returns n(2) by simp
  next
    case f: True
    obtain m where "n = Suc m" using n(1) by (cases n) auto
    then show ?thesis using isIgnored_falsy_default_returns[OF True f] by simp
  qed
qed

text \<open>A default rule that is a list with a falsy element: the call for that element takes
  the default rule again, and no depth of calls is enough.\<close>

lemma isIgnored_never_returns:
  assumes "conventions cfg ''ignored'' = RArray [RFalsy]" and "\<not> isNpm cfg p"
    and "p \<notin> set (configPaths cfg)"
  shows "isIgnored n cfg p RFalsy = None"
proof (induction n)
  case 0
  show ?case by simp
next
  case (Suc n)
  have "\<not> 0 \<le> js_array_indexOf (\<lambda>x. x = p) (configPaths cfg)"
    using assms(3) by (simp add: js_array_indexOf_found)
  then show ?case using assms(1,2) Suc by (simp add: Let_def)
qed

text \<open>
  Claim C6. Whatever the rule: a path of the package-dependency namespace is not
  ignored; any other path that is one of the configuration files is ignored; and for
  every other path the answer is that of the rule in force, which is the rule given or,
  when that is falsy (absent, \<open>null\<close>, the empty string), the default rule of the
  conventions: the match of a regular expression, the answer of a function, the
  normalised path starting with the normalised string, or, for a list, \<open>isIgnored\<close> on its
  elements in order until one answers true (if all of them return, whether any answers
  true). With rules that hold no falsy value in their lists, a depth of calls one above
  the nesting of the lists is enough for an answer.
\<close>

theorem isIgnored_precedence:
  "(isNpm cfg p \<longrightarrow> isIgnored (Suc n) cfg p r = Some False) \<and>
   (\<not> isNpm cfg p \<and> p \<in> set (configPaths cfg) \<longrightarrow> isIgnored (Suc n) cfg p r = Some True) \<and>
   (\<not> isNpm cfg p \<and> p \<notin> set (configPaths cfg) \<longrightarrow>
      isIgnored (Suc n) cfg p r =
        (case (if falsy r then conventions cfg ''ignored'' else r) of
           RRegExp m \<Rightarrow> Some (m p)
         | RFunction f \<Rightarrow> Some (f p)
         | RString s \<Rightarrow> Some (startsWith (normalize cfg p) (normalize cfg s))
         | RArray ts \<Rightarrow> js_some (\<lambda>subTest. isIgnored n cfg p subTest) ts
         | _ \<Rightarrow> Some False)) \<and>
   ((\<forall>t \<in> set ts. isIgnored n cfg p t \<noteq> None) \<longrightarrow>
      js_some (\<lambda>subTest. isIgnored n cfg p subTest) ts =
        Some (\<exists>t \<in> set ts. isIgnored n cfg p t = Some True)) \<and>
   ((falsy (conventions cfg ''ignored'') \<or> total_rule (conventions cfg ''ignored'')) \<and>
    (falsy r \<or> total_rule r) \<and>
    rule_depth r \<le> n \<and> rule_depth (conventions cfg ''ignored'') \<le> n \<longrightarrow>
      isIgnored (Suc n) cfg p r \<noteq> None)"
proof (intro conjI impI)
  assume "isNpm cfg p"
  then show "isIgnored (Suc n) cfg p r = Some False" by simp
next
  assume "\<not> isNpm cfg p \<and> p \<in> set (configPaths cfg)"
  then show "isIgnored (Suc n) cfg p r = Some True"
    by (simp add: Let_def js_array_indexOf_found)
next
  assume "\<not> isNpm cfg p \<and> p \<notin> set (configPaths cfg)"
  then show "isIgnored (Suc n) cfg p r =
        (case (if falsy r then conventions cfg ''ignored'' else r) of
           RRegExp m \<Rightarrow> Some (m p)
         | RFunction f \<Rightarrow> Some (f p)
         | RString s \<Rightarrow> Some (startsWith (normalize cfg p) (normalize cfg s))
         | RArray ts \<Rightarrow> js_some (\<lambda>subTest. isIgnored n cfg p subTest) ts
         | _ \<Rightarrow> Some False)"
    by (simp add: Let_def js_array_indexOf_found)
next
  assume "\<forall>t \<in> set ts. isIgnored n cfg p t \<noteq> None"
  then show "js_some (\<lambda>subTest. isIgnored n cfg p subTest) ts =
        Some (\<exists>t \<in> set ts. isIgnored n cfg p t = Some True)"
    by (rule js_some_returns)
next
  assume "(falsy (conventions cfg ''ignored'') \<or> total_rule (conventions cfg ''ignored'')) \<and>
    (falsy r \<or> total_rule r) \<and>
    rule_depth r \<le> n \<and> rule_depth (conventions cfg ''ignored'') \<le> n"
  then show "isIgnored (Suc n) cfg p r \<noteq> None"
    using isIgnored_returns[of cfg r "Suc n" p] by simp
qed

theorem isIgnored_precedence_witness:
  "isNpm demo_config ''node_modules/x/index.js'' \<and>
   isIgnored (Suc 0) demo_config ''node_modules/x/index.js'' (RFunction (\<lambda>p. True)) = Some False \<and>
   \<not> isNpm demo_config ''brunch-config.js'' \<and>
   ''brunch-config.js'' \<in> set (configPaths demo_config) \<and>
   isIgnored (Suc 0) demo_config ''brunch-config.js'' (RFunction (\<lambda>p. False)) = Some True \<and>
   \<not> isNpm demo_config ''app/a.js'' \<and> ''app/a.js'' \<notin> set (configPaths demo_config) \<and>
   isIgnored (Suc (Suc 0)) demo_config ''app/a.js'' (RArray [RString ''vendor/'', RString ''app/'']) =
     Some True \<and>
   isIgnored (Suc 0) demo_config ''app/a.js'' (RString []) = Some False \<and>
   js_some (\<lambda>subTest. isIgnored (Suc 0) demo_config ''app/a.js'' subTest)
       [RString ''vendor/'', RString ''app/''] = Some True \<and>
   total_rule (conventions demo_config ''ignored'') \<and>
   total_rule (RArray [RString ''vendor/'', RString ''app/'']) \<and>
   rule_depth (RArray [RString ''vendor/'', RString ''app/'']) \<le> Suc 0 \<and>
   rule_depth (conventions demo_config ''ignored'') \<le> Suc 0 \<and>
   isIgnored (Suc (Suc 0)) demo_config ''app/a.js'' (RArray [RString ''vendor/'', RString ''app/'']) \<noteq> None"
proof -
  have a: "isNpm demo_config ''node_modules/x/index.js''"
    and b: "\<not> isNpm demo_config ''brunch-config.js''"
       "''brunch-config.js'' \<in> set (configPaths demo_config)"
    and c: "\<not> isNpm demo_config ''app/a.js''" "''app/a.js'' \<notin> set (configPaths demo_config)"
    by (simp_all add: demo_config_def startsWith_def js_lastIndexOf_0_def)
  have d: "total_rule (conventions demo_config ''ignored'')"
    "total_rule (RArray [RString ''vendor/'', RString ''app/''])"
    "rule_depth (RArray [RString ''vendor/'', RString ''app/'']) \<le> Suc 0"
    "rule_depth (conventions demo_config ''ignored'') \<le> Suc 0"
    by (simp_all add: demo_config_def)
  note t = isIgnored_precedence
  from t[of demo_config "''node_modules/x/index.js''" 0 "RFunction (\<lambda>p. True)"] a
  have 1: "isIgnored (Suc 0) demo_config ''node_modules/x/index.js'' (RFunction (\<lambda>p. True)) = Some False"
    by blast
  from t[of demo_config "''brunch-config.js''" 0 "RFunction (\<lambda>p. False)"] b
  have 2: "isIgnored (Suc 0) demo_config ''brunch-config.js'' (RFunction (\<lambda>p. False)) = Some True"
    by blast
  from t[of demo_config "''app/a.js''" 0 "RString ''vendor/''"] c
  have 3: "isIgnored (Suc 0) demo_config ''app/a.js'' (RString ''vendor/'') = Some False"
    by (simp add: demo_config_def startsWith_def js_lastIndexOf_0_def)
  from t[of demo_config "''app/a.js''" 0 "RString ''app/''"] c
  have 4: "isIgnored (Suc 0) demo_config ''app/a.js'' (RString ''app/'') = Some True"
    by (simp add: demo_config_def startsWith_def js_lastIndexOf_0_def)
  from t[of demo_config "''app/a.js''" "Suc 0" "RArray [RString ''vendor/'', RString ''app/'']"] c
  have 5: "isIgnored (Suc (Suc 0)) demo_config ''app/a.js'' (RArray [RString ''vendor/'', RString ''app/'']) =
     Some True"
    using 3 4 by simp
  from t[of demo_config "''app/a.js''" 0 "RString []"] c
  have 6: "isIgnored (Suc 0) demo_config ''app/a.js'' (RString []) = Some False"
    by (simp add: demo_config_def startsWith_def js_lastIndexOf_0_def)
  from t[of demo_config "''app/a.js''" "Suc 0" "RString []" "[RString ''vendor/'', RString ''app/'']"]
  have 7: "js_some (\<lambda>subTest. isIgnored (Suc 0) demo_config ''app/a.js'' subTest)
       [RString ''vendor/'', RString ''app/''] = Some True"
    using 3 4 by simp
  from t[of demo_config "''app/a.js''" "Suc 0" "RArray [RString ''vendor/'', RString ''app/'']"] d
  have 8: "isIgnored (Suc (Suc 0)) demo_config ''app/a.js''
      (RArray [RString ''vendor/'', RString ''app/'']) \<noteq> None"
    by blast
  show ?thesis using a b c d 1 2 5 6 7 8 by blast
qed

section \<open>Whom the cascade compiles\<close>

text \<open>
  Claim C8. In every reachable state the records \<open>compileDependencyParents\<close> selects for a
  path are exactly the records of the file list that are not disposed, whose path is not
  marked compiled and whose dependencies contain the path; the cascade is compile called
  on each of them in turn, it returns, and in the store it changes these records only
  (clearing \<open>removed\<close>) while their paths join the compiling set. No disposed record is
  among them: \<open>dispose\<close> empties the dependencies and freezes the record.
\<close>

theorem cascade_compiles_exactly_the_dependents:
  assumes "reachable cfg s"
  shows "parents s p =
           filter (\<lambda>f. \<not> disposed (store s f) \<and> \<not> compiled s (path (store s f)) \<and>
                       (case dependencies (store s f) of None \<Rightarrow> False | Some deps \<Rightarrow> p \<in> set deps))
             (files s) \<and>
         compileDependencyParents s p = forEach_compile s (parents s p) \<and>
         (\<exists>s'. compileDependencyParents s p = Returns s' \<and>
            store s' = (\<lambda>g. if g \<in> set (parents s p) then (store s g)\<lparr>removed := False\<rparr> else store s g) \<and>
            set (compiling s') = set (compiling s) \<union> (\<lambda>f. path (store s f)) ` set (parents s p)) \<and>
         (\<forall>f. disposed (store s f) \<longrightarrow> f \<notin> set (parents s p))"
proof -
  from assms have ok: "store_ok s" using reachable_wf wf_def by blast
  have "\<forall>f. disposed (store s f) \<longrightarrow> f \<notin> set (parents s p)"
    by (simp add: parents_eq[OF ok])
  moreover from cascade_effect[OF ok, of p]
  have "\<exists>s'. compileDependencyParents s p = Returns s' \<and>
            store s' = (\<lambda>g. if g \<in> set (parents s p) then (store s g)\<lparr>removed := False\<rparr> else store s g) \<and>
            set (compiling s') = set (compiling s) \<union> (\<lambda>f. path (store s f)) ` set (parents s p)"
    by blast
  ultimately show ?thesis using parents_eq[OF ok, of p] cascade_is_forEach[of s p] by blast
qed

theorem cascade_compiles_exactly_the_dependents_witness:
  "reachable demo_config demo_settled \<and>
   parents demo_settled ''app/_vars.js'' = [0] \<and>
   (\<exists>s'. compileDependencyParents demo_settled ''app/_vars.js'' = Returns s' \<and>
         set (compiling s') = {''app/a.js''}) \<and>
   reachable demo_config demo_disposed \<and> disposed (store demo_disposed 0) \<and>
   parents demo_disposed ''app/_vars.js'' = []"
proof -
  from cascade_compiles_exactly_the_dependents[OF reachable_demo_settled, of "''app/_vars.js''"]
  have "\<exists>s'. compileDependencyParents demo_settled ''app/_vars.js'' = Returns s' \<and>
          set (compiling s') = set (compiling demo_settled) \<union>
            (\<lambda>f. path (store demo_settled f)) ` set (parents demo_settled ''app/_vars.js'')"
    by blast
  then have 1: "\<exists>s'. compileDependencyParents demo_settled ''app/_vars.js'' = Returns s' \<and>
          set (compiling s') = {''app/a.js''}"
    by (simp add: demo_parents demo_settled_fields(2) demo_settled_record(2))
  from cascade_compiles_exactly_the_dependents[OF reachable_demo_disposed, of "''app/_vars.js''"]
  have "\<forall>f. disposed (store demo_disposed f) \<longrightarrow> f \<notin> set (parents demo_disposed ''app/_vars.js'')"
    by blast
  then have "0 \<notin> set (parents demo_disposed ''app/_vars.js'')"
    using demo_disposed_fields(2) by blast
  moreover have "set (parents demo_disposed ''app/_vars.js'') \<subseteq> {0}"
    using parents_in_files[of demo_disposed "''app/_vars.js''"] by (simp add: demo_disposed_fields(1))
  ultimately have 2: "parents demo_disposed ''app/_vars.js'' = []"
    by (cases "parents demo_disposed ''app/_vars.js''") auto
  show ?thesis
    using reachable_demo_settled demo_parents 1 reachable_demo_disposed demo_disposed_fields(2) 2
    by blast
qed

section \<open>The cascade on unlink and on change\<close>

text \<open>
  Claim C9. For a path that is not an asset: the unlink handler of an ignored path is the
  cascade followed by the timer reset, whatever \<open>initial\<close> is, so in a reachable state
  every dependent's path is in the compiling set afterwards, also on the first build. The
  change handler (its read having succeeded) compiles the changed file and then runs the
  cascade only if \<open>initial\<close> is false; while \<open>initial\<close> is true it goes straight to the timer
  reset, and for an ignored path it then does nothing but reset the timer.
\<close>

theorem unlink_cascades_on_first_build:
  assumes "is_convention cfg ''assets'' p = Inr False"
  shows "unlink cfg True s p =
           and_then (compileDependencyParents s p) (\<lambda>s'. Returns (resetTimer s')) \<and>
         (initial s \<longrightarrow>
            change cfg ig s p cs h None =
              and_then (compile_changed cfg ig s p cs h) (\<lambda>s2. Returns (resetTimer s2))) \<and>
         (\<not> initial s \<longrightarrow>
            change cfg ig s p cs h None =
              and_then (compile_changed cfg ig s p cs h)
                (\<lambda>s2. and_then (compileDependencyParents s2 p) (\<lambda>s3. Returns (resetTimer s3)))) \<and>
         (reachable cfg s \<longrightarrow>
            (\<forall>f \<in> set (parents s p).
               path (store s f) \<in> set (compiling (state_of (unlink cfg True s p))))) \<and>
         (initial s \<and> \<not> isNpmJSON cfg p \<longrightarrow>
            change cfg True s p cs h None = Returns (resetTimer s))"
proof (intro conjI impI)
  show "unlink cfg True s p =
           and_then (compileDependencyParents s p) (\<lambda>s'. Returns (resetTimer s'))"
    by (rule unlink_ignored_source[OF assms])
next
  assume "initial s"
  then show "change cfg ig s p cs h None =
              and_then (compile_changed cfg ig s p cs h) (\<lambda>s2. Returns (resetTimer s2))"
    by (simp add: change_source[OF assms])
next
  assume "\<not> initial s"
  then show "change cfg ig s p cs h None =
              and_then (compile_changed cfg ig s p cs h)
                (\<lambda>s2. and_then (compileDependencyParents s2 p) (\<lambda>s3. Returns (resetTimer s3)))"
    by (simp add: change_source[OF assms])
next
  assume "reachable cfg s"
  then have ok: "store_ok s" using reachable_wf wf_def by blast
  from cascade_effect[OF ok, of p] obtain s' where
    r: "compileDependencyParents s p = Returns s'"
    and c: "set (compiling s') = set (compiling s) \<union> (\<lambda>f. path (store s f)) ` set (parents s p)"
    by blast
  have "compiling (state_of (unlink cfg True s p)) = compiling s'"
    by (simp add: unlink_ignored_source[OF assms] r resetTimer_def)
  then show "\<forall>f \<in> set (parents s p).
               path (store s f) \<in> set (compiling (state_of (unlink cfg True s p)))"
    using c by simp
next
  assume "initial s \<and> \<not> isNpmJSON cfg p"
  then show "change cfg True s p cs h None = Returns (resetTimer s)"
    by (simp add: change_source[OF assms] compile_changed_def)
qed

theorem unlink_cascades_on_first_build_witness:
  "is_convention demo_config ''assets'' ''app/_vars.js'' = Inr False \<and>
   reachable demo_config demo_settled \<and> initial demo_settled \<and>
   \<not> isNpmJSON demo_config ''app/_vars.js'' \<and>
   on_unlink (Suc 0) demo_config demo_settled ''app/_vars.js'' =
     Some (unlink demo_config True demo_settled ''app/_vars.js'') \<and>
   ''app/a.js'' \<in> set (compiling (state_of (unlink demo_config True demo_settled ''app/_vars.js''))) \<and>
   change demo_config True demo_settled ''app/_vars.js'' [] False None =
     Returns (resetTimer demo_settled) \<and>
   compiling (resetTimer demo_settled) = [] \<and>
   \<not> initial demo_later \<and>
   compiling (state_of (change demo_config True demo_later ''app/_vars.js'' [] False None)) =
     [''app/a.js'']"
proof -
  note t = unlink_cascades_on_first_build[OF demo_vars_not_asset, of demo_settled True "[]" False]
  note u = unlink_cascades_on_first_build[OF demo_vars_not_asset, of demo_later True "[]" False]
  have n: "\<not> isNpmJSON demo_config ''app/_vars.js''" by (simp add: demo_config_def)
  have i: "initial demo_settled" by (rule demo_settled_fields(4))
  from t reachable_demo_settled
  have "\<forall>f \<in> set (parents demo_settled ''app/_vars.js'').
          path (store demo_settled f) \<in>
            set (compiling (state_of (unlink demo_config True demo_settled ''app/_vars.js'')))"
    by blast
  then have 1: "''app/a.js'' \<in>
      set (compiling (state_of (unlink demo_config True demo_settled ''app/_vars.js'')))"
    by (simp add: demo_parents demo_settled_record(2))
  from t i n have 2: "change demo_config True demo_settled ''app/_vars.js'' [] False None =
     Returns (resetTimer demo_settled)" by blast
  have 3: "on_unlink (Suc 0) demo_config demo_settled ''app/_vars.js'' =
     Some (unlink demo_config True demo_settled ''app/_vars.js'')"
    by (simp only: on_unlink_def demo_vars_ignored option.case)
  have 4: "compiling (resetTimer demo_settled) = []"
    by (simp add: resetTimer_def demo_settled_fields(2))
  from u demo_later_fields(1)
  have "change demo_config True demo_later ''app/_vars.js'' [] False None =
          and_then (compile_changed demo_config True demo_later ''app/_vars.js'' [] False)
            (\<lambda>s2. and_then (compileDependencyParents s2 ''app/_vars.js'')
                    (\<lambda>s3. Returns (resetTimer s3)))"
    by blast
  then have 5: "compiling (state_of (change demo_config True demo_later ''app/_vars.js'' [] False None)) =
     [''app/a.js'']"
    using n
    by (simp add: compile_changed_def compileDependencyParents_def demo_later_fields compile_def
        Let_def set_add_def resetTimer_def)
  show ?thesis
    using demo_vars_not_asset reachable_demo_settled i n 1 2 3 4 5 demo_later_fields(1) by blast
qed

section \<open>Settling a compile\<close>

lemma compile_settled_chain:
  fixes res :: "unit settled"
  shows "p \<notin> set (compiling (compile_settled p res s)) \<and>
     timer (compile_settled p res s) \<and>
     resets (compile_settled p res s) = Suc (resets s) \<and>
     (\<exists>v. marking (compile_settled p res s) = marking s @ [(p, Resolved v)]) \<and>
     compiled (marking_runs (length (marking s)) (compile_settled p res s)) p \<and>
     emitted (marking_runs (length (marking s)) (compile_settled p res s)) = emitted s @ [Compiled p] \<and>
     marking (marking_runs (length (marking s)) (compile_settled p res s)) = marking s \<and>
     p \<notin> set (compiling (marking_runs (length (marking s)) (compile_settled p res s)))"
  by (cases res)
    (simp_all add: compile_settled_def js_then_def reset_def resetTimer_def set_delete_def
      marking_runs_def compile_marked_def js_then1_def mark_compiled_def drop_nth_def Let_def)

lemma pipeline_settled_unfold:
  assumes "i < length (running s)" and "running s ! i = (p, f)"
  shows "\<exists>c pend res. pipeline_settled cfg pf now i out s =
           compile_settled p res
             (s\<lparr>store := (store s)(f := c), running := drop_nth i (running s),
                nodes := nodes s @ pend\<rparr>)"
  using assms by (auto simp: pipeline_settled_def split: prod.splits)

text \<open>
  Claim C7. Whichever way the compile operation of a record settles, the callbacks of
  \<open>compile\<close> take the path out of the compiling set and reset the timer, and the promise
  they leave is resolved, not rejected; the last callback then marks the path compiled and
  emits \<open>compiled\<close> with it. The first part says so for any way \<open>res\<close> of settling, the
  second for a running compile whose pipeline settles with any \<open>out\<close>.
\<close>

theorem compile_settlement_cleans_up:
  fixes res :: "unit settled" and out :: "pipeline_result option settled"
  shows
    "(let s1 = compile_settled p res s; s2 = marking_runs (length (marking s)) s1
      in p \<notin> set (compiling s1) \<and> timer s1 \<and> resets s1 = Suc (resets s) \<and>
         (\<exists>v. marking s1 = marking s @ [(p, Resolved v)]) \<and>
         compiled s2 p \<and> emitted s2 = emitted s @ [Compiled p] \<and> marking s2 = marking s \<and>
         p \<notin> set (compiling s2)) \<and>
     (i < length (running s) \<and> running s ! i = (p, f) \<longrightarrow>
       (let s1 = pipeline_settled cfg pf now i out s; s2 = marking_runs (length (marking s)) s1
        in p \<notin> set (compiling s1) \<and> timer s1 \<and> resets s1 = Suc (resets s) \<and>
           (\<exists>v. marking s1 = marking s @ [(p, Resolved v)]) \<and>
           compiled s2 p \<and> emitted s2 = emitted s @ [Compiled p] \<and> marking s2 = marking s \<and>
           p \<notin> set (compiling s2)))"
proof (intro conjI impI)
  show "let s1 = compile_settled p res s; s2 = marking_runs (length (marking s)) s1
      in p \<notin> set (compiling s1) \<and> timer s1 \<and> resets s1 = Suc (resets s) \<and>
         (\<exists>v. marking s1 = marking s @ [(p, Resolved v)]) \<and>
         compiled s2 p \<and> emitted s2 = emitted s @ [Compiled p] \<and> marking s2 = marking s \<and>
         p \<notin> set (compiling s2)"
    unfolding Let_def by (rule compile_settled_chain)
next
  assume "i < length (running s) \<and> running s ! i = (p, f)"
  then obtain c pend res' where
    eq: "pipeline_settled cfg pf now i out s =
           compile_settled p res'
             (s\<lparr>store := (store s)(f := c), running := drop_nth i (running s),
                nodes := nodes s @ pend\<rparr>)"
    using pipeline_settled_unfold by blast
  show "let s1 = pipeline_settled cfg pf now i out s; s2 = marking_runs (length (marking s)) s1
        in p \<notin> set (compiling s1) \<and> timer s1 \<and> resets s1 = Suc (resets s) \<and>
           (\<exists>v. marking s1 = marking s @ [(p, Resolved v)]) \<and>
           compiled s2 p \<and> emitted s2 = emitted s @ [Compiled p] \<and> marking s2 = marking s \<and>
           p \<notin> set (compiling s2)"
    unfolding Let_def eq
    using compile_settled_chain[of p res'
        "s\<lparr>store := (store s)(f := c), running := drop_nth i (running s), nodes := nodes s @ pend\<rparr>"]
    by simp
qed

theorem compile_settlement_cleans_up_witness:
  "(0 < length (running demo_compiling) \<and> running demo_compiling ! 0 = (''app/a.js'', 0)) \<and>
   (let s1 = pipeline_settled demo_config demo_platform 7 0 (Rejected (Some (Error ''syntax''))) demo_compiling;
        s2 = marking_runs 0 s1
    in ''app/a.js'' \<notin> set (compiling s1) \<and> timer s1 \<and> resets s1 = 2 \<and>
       compiled s2 ''app/a.js'' \<and> emitted s2 = [Compiled ''app/a.js''])"
  using compile_settlement_cleans_up[of "''app/a.js''" "Rejected None" demo_compiling 0 0
      demo_config demo_platform 7 "Rejected (Some (Error ''syntax''))"]
  by (simp add: demo_compiling_fields Let_def)


end
